theory Spec2Isabelle
  imports Complex_Main
begin

section \<open>Bulk renamer: the renaming engine, the preview pass and the rename loop\<close>

text \<open>
  The development follows \<^verbatim>\<open>bulk-renamer.py\<close>: \<^verbatim>\<open>RenameConfig\<close>,
  \<^verbatim>\<open>RenamingEngine.process\<close>, \<^verbatim>\<open>FileItem\<close>, \<^verbatim>\<open>FileTableModel.data\<close> and
  \<^verbatim>\<open>update_previews\<close>, and the loop of \<^verbatim>\<open>MainWindow.execute_rename\<close>.

  Python text is modelled by \<^typ>\<open>string\<close>. What Python does with the case of a character
  is read from Unicode tables, which are a parameter of the model, and the functions that
  change case are stated for text of any type of characters. Python's unbounded integers
  are \<^typ>\<open>int\<close>. The library functions the
  program calls (\<^verbatim>\<open>pathlib\<close>, \<^verbatim>\<open>str\<close> methods, the replacement templates of
  \<^verbatim>\<open>re\<close>) are modelled with the behaviour of CPython 3.12 and 3.13 on a POSIX system.
\<close>

subsection \<open>Exceptions\<close>

text \<open>
  The exceptions that can leave \<^verbatim>\<open>process\<close>: \<^verbatim>\<open>re.error\<close>, and the other exceptions
  that \<^verbatim>\<open>re\<close> raises (\<^verbatim>\<open>IndexError\<close> for an unknown group name in a replacement,
  \<^verbatim>\<open>OverflowError\<close> and \<^verbatim>\<open>RecursionError\<close> from compiling a pattern).
\<close>

datatype py_exn = ReError | IndexError | OverflowError | RecursionError

subsection \<open>Python slices and string methods\<close>

definition slice_from :: "'a list \<Rightarrow> int \<Rightarrow> 'a list" where
  \<comment> \<open>\<^verbatim>\<open>s[n:]\<close>; a negative \<open>n\<close> counts from the end and is clamped at the start.\<close>
  "slice_from s n = (if 0 \<le> n then drop (nat n) s else drop (length s - nat (- n)) s)"

definition slice_to :: "'a list \<Rightarrow> int \<Rightarrow> 'a list" where
  \<comment> \<open>\<^verbatim>\<open>s[:n]\<close>\<close>
  "slice_to s n = (if 0 \<le> n then take (nat n) s else take (length s - nat (- n)) s)"

definition backslash :: char where
  "backslash = CHR 0x5C"

definition ascii_uppercase :: string where
  "ascii_uppercase = ''ABCDEFGHIJKLMNOPQRSTUVWXYZ''"

definition ascii_lowercase :: string where
  "ascii_lowercase = ''abcdefghijklmnopqrstuvwxyz''"

definition ascii_letter :: "char \<Rightarrow> bool" where
  \<comment> \<open>membership in \<^verbatim>\<open>ASCIILETTERS\<close>\<close>
  "ascii_letter c = (c \<in> set ascii_uppercase \<or> c \<in> set ascii_lowercase)"

definition char_lower :: "char \<Rightarrow> char" where
  \<comment> \<open>the lowercase of a letter \<^verbatim>\<open>A\<close> to \<^verbatim>\<open>Z\<close>\<close>
  "char_lower c =
     (case map_of (zip ascii_uppercase ascii_lowercase) c of Some d \<Rightarrow> d | None \<Rightarrow> c)"

definition char_upper :: "char \<Rightarrow> char" where
  \<comment> \<open>the uppercase of a letter \<^verbatim>\<open>a\<close> to \<^verbatim>\<open>z\<close>\<close>
  "char_upper c =
     (case map_of (zip ascii_lowercase ascii_uppercase) c of Some d \<Rightarrow> d | None \<Rightarrow> c)"

text \<open>
  What \<^verbatim>\<open>str.lower\<close>, \<^verbatim>\<open>str.upper\<close>, \<^verbatim>\<open>str.title\<close>, \<^verbatim>\<open>str.isidentifier\<close> and the matching of \<^verbatim>\<open>re\<close>
  under \<^verbatim>\<open>re.IGNORECASE\<close> do with a character is read from the Unicode tables of the
  interpreter. The tables are a parameter of the model, for any type \<^typ>\<open>'c\<close> of characters:

  \<^item> \<open>is_cased c\<close>: the character is cased (\<^verbatim>\<open>_PyUnicode_IsCased\<close>);
  \<^item> \<open>to_title_full c\<close> and \<open>to_upper_full c\<close>: the titlecase and the uppercase mapping of the
    character, which may have more than one character, as \<^verbatim>\<open>Ss\<close> and \<^verbatim>\<open>SS\<close> for the sharp s;
  \<^item> \<open>lower_ucs4 s i\<close>: the lowercase mapping of the character at position \<open>i\<close> of \<open>s\<close>; it is
    given the text because the lowercase of a capital sigma depends on its neighbours;
  \<^item> \<open>ic_match p c\<close>: under \<^verbatim>\<open>re.IGNORECASE\<close> the character \<open>c\<close> of the subject matches the
    literal \<open>p\<close> of the pattern;
  \<^item> \<open>isidentifier s\<close>: \<^verbatim>\<open>s.isidentifier()\<close>.
\<close>

record 'c unicode_tables =
  is_cased :: "'c \<Rightarrow> bool"
  to_title_full :: "'c \<Rightarrow> 'c list"
  to_upper_full :: "'c \<Rightarrow> 'c list"
  lower_ucs4 :: "'c list \<Rightarrow> nat \<Rightarrow> 'c list"
  ic_match :: "'c \<Rightarrow> 'c \<Rightarrow> bool"
  isidentifier :: "'c list \<Rightarrow> bool"

fun lower_from :: "'c unicode_tables \<Rightarrow> 'c list \<Rightarrow> nat \<Rightarrow> 'c list \<Rightarrow> 'c list" where
  \<comment> \<open>the loop of \<^verbatim>\<open>str.lower\<close> on \<open>s\<close>, from position \<open>i\<close> on\<close>
  "lower_from db s i [] = []"
| "lower_from db s i (c # cs) = lower_ucs4 db s i @ lower_from db s (i + 1) cs"

definition str_lower :: "'c unicode_tables \<Rightarrow> 'c list \<Rightarrow> 'c list" where
  "str_lower db s = lower_from db s 0 s"

definition str_upper :: "'c unicode_tables \<Rightarrow> 'c list \<Rightarrow> 'c list" where
  "str_upper db s = concat (map (to_upper_full db) s)"

fun title_from :: "'c unicode_tables \<Rightarrow> 'c list \<Rightarrow> bool \<Rightarrow> nat \<Rightarrow> 'c list \<Rightarrow> 'c list" where
  \<comment> \<open>the loop of \<^verbatim>\<open>str.title\<close> on \<open>s\<close>, from position \<open>i\<close> on; the flag is
      \<^verbatim>\<open>previous_is_cased\<close>\<close>
  "title_from db s prev i [] = []"
| "title_from db s prev i (c # cs) =
     (if prev then lower_ucs4 db s i else to_title_full db c) @
     title_from db s (is_cased db c) (i + 1) cs"

definition str_title :: "'c unicode_tables \<Rightarrow> 'c list \<Rightarrow> 'c list" where
  "str_title db s = title_from db s False 0 s"

fun str_replace :: "string \<Rightarrow> string \<Rightarrow> string \<Rightarrow> string" where
  \<comment> \<open>\<^verbatim>\<open>s.replace(old, new)\<close>: the occurrences of \<open>old\<close>, leftmost first, not overlapping\<close>
  "str_replace old new [] = (if old = [] then new else [])"
| "str_replace old new (c # cs) =
     (if take (length old) (c # cs) = old
      then new @ (if old = [] then c # str_replace old new cs
                  else str_replace old new (drop (length old - 1) cs))
      else c # str_replace old new cs)"

definition str_remove_chars :: "string \<Rightarrow> string \<Rightarrow> string" where
  \<comment> \<open>\<^verbatim>\<open>s.translate(str.maketrans("", "", chars))\<close>\<close>
  "str_remove_chars chars s = filter (\<lambda>c. c \<notin> set chars) s"

definition digit_char :: "nat \<Rightarrow> char" where
  "digit_char d = ''0123456789'' ! d"

fun nat_digits :: "nat \<Rightarrow> string" where
  "nat_digits n =
     (if n < 10 then [digit_char n] else nat_digits (n div 10) @ [digit_char (n mod 10)])"

declare nat_digits.simps [simp del]

definition str_of_int :: "int \<Rightarrow> string" where
  \<comment> \<open>\<^verbatim>\<open>str(n)\<close>\<close>
  "str_of_int n = (if n < 0 then CHR ''-'' # nat_digits (nat (- n)) else nat_digits (nat n))"

definition zfill :: "string \<Rightarrow> int \<Rightarrow> string" where
  \<comment> \<open>\<^verbatim>\<open>s.zfill(width)\<close>: zeros go after a leading sign\<close>
  "zfill s width =
     (if width \<le> int (length s) then s
      else let fill = replicate (nat (width - int (length s))) CHR ''0''
           in (case s of
                 [] \<Rightarrow> fill
               | c # rest \<Rightarrow>
                   if c = CHR ''+'' \<or> c = CHR ''-'' then c # fill @ rest else fill @ s))"

subsection \<open>The part of \<^verbatim>\<open>re\<close> that the engine uses on literal text\<close>

definition re_special_chars :: string where
  "re_special_chars =
     ''()[]{}?*+-|^$'' @ [backslash] @ ''.&~# '' @ [CHR 0x09, CHR 0x0A, CHR 0x0D, CHR 0x0B, CHR 0x0C]"

definition re_escape :: "string \<Rightarrow> string" where
  \<comment> \<open>\<^verbatim>\<open>re.escape\<close>\<close>
  "re_escape s = concat (map (\<lambda>c. if c \<in> set re_special_chars then [backslash, c] else [c]) s)"

datatype template_part = Literal char | WholeMatch

definition octal_digit :: "char \<Rightarrow> nat option" where
  "octal_digit c = map_of (zip ''01234567'' [0, 1, 2, 3, 4, 5, 6, 7]) c"

definition is_digit :: "char \<Rightarrow> bool" where
  "is_digit c = (c \<in> set ''0123456789'')"

definition template_escapes :: "(char \<times> char) list" where
  \<comment> \<open>the table \<^verbatim>\<open>ESCAPES\<close> of the template parser\<close>
  "template_escapes =
     [(CHR ''a'', CHR 0x07), (CHR ''b'', CHR 0x08), (CHR ''f'', CHR 0x0C), (CHR ''n'', CHR 0x0A),
      (CHR ''r'', CHR 0x0D), (CHR ''t'', CHR 0x09), (CHR ''v'', CHR 0x0B), (backslash, backslash)]"

definition group_reference :: "char unicode_tables \<Rightarrow> string \<Rightarrow> py_exn + template_part" where
  \<comment> \<open>the name between \<^verbatim>\<open>\g<\<close> and \<^verbatim>\<open>>\<close>, for a pattern with no group of its own:
      only group 0, the whole match, exists\<close>
  "group_reference db name =
     (if name = [] then Inl ReError
      else if \<forall>d \<in> set name. is_digit d then
        (if \<forall>d \<in> set name. d = CHR ''0'' then Inr WholeMatch else Inl ReError)
      else if isidentifier db name then Inl IndexError
      else Inl ReError)"

definition cons_part :: "template_part \<Rightarrow> py_exn + template_part list \<Rightarrow> py_exn + template_part list" where
  "cons_part p r = (case r of Inl e \<Rightarrow> Inl e | Inr ps \<Rightarrow> Inr (p # ps))"

function parse_template :: "char unicode_tables \<Rightarrow> string \<Rightarrow> py_exn + template_part list" where
  \<comment> \<open>\<^verbatim>\<open>re._parser.parse_template\<close> for a pattern without groups. The tokenizer is one
      token ahead: a backslash that ends the template right after a group reference is
      refused before the reference is looked up\<close>
  "parse_template db [] = Inr []"
| "parse_template db (c # cs) =
     (if c \<noteq> backslash then cons_part (Literal c) (parse_template db cs)
      else (case cs of
        [] \<Rightarrow> Inl ReError
      | e # rest \<Rightarrow>
          if e = CHR ''g'' then
            (case rest of
               [] \<Rightarrow> Inl ReError
             | lt # rest' \<Rightarrow>
                 if lt \<noteq> CHR ''<'' then Inl ReError
                 else if CHR ''>'' \<notin> set rest' then Inl ReError
                 else if drop 1 (dropWhile (\<lambda>x. x \<noteq> CHR ''>'') rest') = [backslash] then Inl ReError
                 else (case group_reference db (takeWhile (\<lambda>x. x \<noteq> CHR ''>'') rest') of
                         Inl err \<Rightarrow> Inl err
                       | Inr p \<Rightarrow>
                           cons_part p
                             (parse_template db (drop 1 (dropWhile (\<lambda>x. x \<noteq> CHR ''>'') rest')))))
          else if e = CHR ''0'' then
            (case rest of
               [] \<Rightarrow> cons_part (Literal (CHR 0x00)) (parse_template db rest)
             | d1 # rest1 \<Rightarrow>
                 (case octal_digit d1 of
                    None \<Rightarrow> cons_part (Literal (CHR 0x00)) (parse_template db rest)
                  | Some v1 \<Rightarrow>
                      (case rest1 of
                         [] \<Rightarrow> cons_part (Literal (char_of v1)) (parse_template db rest1)
                       | d2 # rest2 \<Rightarrow>
                           (case octal_digit d2 of
                              None \<Rightarrow> cons_part (Literal (char_of v1)) (parse_template db rest1)
                            | Some v2 \<Rightarrow>
                                cons_part (Literal (char_of (8 * v1 + v2))) (parse_template db rest2)))))
          else if is_digit e then
            (case rest of
               d2 # d3 # rest3 \<Rightarrow>
                 (case (octal_digit e, octal_digit d2, octal_digit d3) of
                    (Some v1, Some v2, Some v3) \<Rightarrow>
                      if 64 * v1 + 8 * v2 + v3 > 255 then Inl ReError
                      else cons_part (Literal (char_of (64 * v1 + 8 * v2 + v3))) (parse_template db rest3)
                  | _ \<Rightarrow> Inl ReError)
             | _ \<Rightarrow> Inl ReError)
          else (case map_of template_escapes e of
                  Some x \<Rightarrow> cons_part (Literal x) (parse_template db rest)
                | None \<Rightarrow>
                    if ascii_letter e then Inl ReError
                    else cons_part (Literal backslash) (cons_part (Literal e) (parse_template db rest)))))"
  by pat_completeness auto
termination
  apply (relation "measure (\<lambda>(db, s). length s)")
  apply auto
  subgoal for db rest' p
    using length_dropWhile_le [of "\<lambda>x. x \<noteq> CHR ''>''" rest'] by linarith
  done

definition expand_template :: "template_part list \<Rightarrow> string \<Rightarrow> string" where
  "expand_template ps m = concat (map (\<lambda>p. case p of Literal c \<Rightarrow> [c] | WholeMatch \<Rightarrow> m) ps)"

definition matches_ic :: "char unicode_tables \<Rightarrow> string \<Rightarrow> string \<Rightarrow> bool" where
  \<comment> \<open>the text \<open>lit\<close> is at the head of \<open>s\<close>, letter case ignored (\<^verbatim>\<open>re.IGNORECASE\<close>)\<close>
  "matches_ic db lit s = (length lit \<le> length s \<and> list_all2 (ic_match db) lit (take (length lit) s))"

fun sub_literal_ic :: "char unicode_tables \<Rightarrow> string \<Rightarrow> template_part list \<Rightarrow> string \<Rightarrow> string" where
  \<comment> \<open>the substitution loop of \<^verbatim>\<open>Pattern.sub\<close> for the pattern \<^verbatim>\<open>re.escape(lit)\<close>\<close>
  "sub_literal_ic db lit ps [] = (if lit = [] then expand_template ps [] else [])"
| "sub_literal_ic db lit ps (c # cs) =
     (if matches_ic db lit (c # cs)
      then expand_template ps (take (length lit) (c # cs)) @
           (if lit = [] then c # sub_literal_ic db lit ps cs
            else sub_literal_ic db lit ps (drop (length lit - 1) cs))
      else c # sub_literal_ic db lit ps cs)"

definition re_sub_literal_ic :: "char unicode_tables \<Rightarrow> string \<Rightarrow> string \<Rightarrow> string \<Rightarrow> py_exn + string" where
  \<comment> \<open>\<^verbatim>\<open>re.compile(re.escape(lit), re.IGNORECASE).sub(repl, s)\<close>: the template is compiled
      first, whether or not the pattern occurs in \<open>s\<close>\<close>
  "re_sub_literal_ic db lit repl s =
     (case parse_template db repl of
        Inl e \<Rightarrow> Inl e
      | Inr ps \<Rightarrow> Inr (sub_literal_ic db lit ps s))"

subsection \<open>Paths (\<^verbatim>\<open>pathlib.PurePosixPath\<close>)\<close>

record pure_path =
  anchor :: string
  tail :: "string list"

fun split_on :: "char \<Rightarrow> string \<Rightarrow> string list" where
  \<comment> \<open>\<^verbatim>\<open>s.split(sep)\<close>\<close>
  "split_on sep [] = [[]]"
| "split_on sep (c # cs) =
     (if c = sep then [] # split_on sep cs
      else (case split_on sep cs of
              [] \<Rightarrow> [[c]]
            | w # ws \<Rightarrow> (c # w) # ws))"

definition parse_path :: "string \<Rightarrow> pure_path" where
  \<comment> \<open>\<^verbatim>\<open>Path(s)\<close>: the root is kept, empty components and \<^verbatim>\<open>.\<close> are dropped\<close>
  "parse_path s =
     \<lparr> anchor = (if take 1 s = ''/'' then
                    (if length s - length (dropWhile (\<lambda>c. c = CHR ''/'') s) = 2 then ''//'' else ''/'')
                  else []),
       tail = filter (\<lambda>x. x \<noteq> [] \<and> x \<noteq> ''.'') (split_on CHR ''/'' s) \<rparr>"

definition path_name :: "pure_path \<Rightarrow> string" where
  "path_name p = (if tail p = [] then [] else last (tail p))"

definition path_parent :: "pure_path \<Rightarrow> pure_path" where
  "path_parent p = (if tail p = [] then p else p\<lparr>tail := butlast (tail p)\<rparr>)"

definition joinpath :: "pure_path \<Rightarrow> string \<Rightarrow> pure_path" where
  \<comment> \<open>\<^verbatim>\<open>p / s\<close>: a rooted \<open>s\<close> replaces \<open>p\<close>\<close>
  "joinpath p s =
     (let q = parse_path s
      in if anchor q \<noteq> [] then q else \<lparr> anchor = anchor p, tail = tail p @ tail q \<rparr>)"

fun rfind :: "char \<Rightarrow> string \<Rightarrow> int" where
  \<comment> \<open>\<^verbatim>\<open>s.rfind(c)\<close>: the last index of \<open>c\<close>, or \<open>-1\<close>\<close>
  "rfind c [] = - 1"
| "rfind c (x # xs) =
     (let r = rfind c xs in if 0 \<le> r then r + 1 else if x = c then 0 else - 1)"

definition path_suffix :: "pure_path \<Rightarrow> string" where
  "path_suffix p =
     (let name = path_name p; i = rfind CHR ''.'' name
      in if 0 < i \<and> i < int (length name) - 1 then slice_from name i else [])"

definition path_stem :: "pure_path \<Rightarrow> string" where
  "path_stem p =
     (let name = path_name p; i = rfind CHR ''.'' name
      in if 0 < i \<and> i < int (length name) - 1 then slice_to name i else name)"

subsection \<open>\<^verbatim>\<open>RenameConfig\<close>\<close>

record rename_config =
  regex_match :: string
  regex_replace :: string
  regex_simple :: bool
  name_mode :: string
  name_fixed :: string
  replace_str :: string
  replace_with :: string
  replace_case :: bool
  case_mode :: string
  remove_first :: int
  remove_last :: int
  remove_from :: int
  remove_to :: int
  remove_chars :: string
  add_prefix :: string
  add_suffix :: string
  add_insert :: string
  add_at_pos :: int
  num_mode :: string
  num_start :: int
  num_incr :: int
  num_pad :: int
  num_sep :: string
  num_at :: int
  ext_mode :: string
  ext_fixed :: string

definition default_config :: rename_config where
  \<comment> \<open>\<^verbatim>\<open>RenameConfig.__init__\<close>\<close>
  "default_config =
     \<lparr> regex_match = [], regex_replace = [], regex_simple = False,
       name_mode = ''Keep'', name_fixed = [],
       replace_str = [], replace_with = [], replace_case = False,
       case_mode = ''Same'',
       remove_first = 0, remove_last = 0, remove_from = 0, remove_to = 0, remove_chars = [],
       add_prefix = [], add_suffix = [], add_insert = [], add_at_pos = 0,
       num_mode = ''None'', num_start = 1, num_incr = 1, num_pad = 0, num_sep = [], num_at = 0,
       ext_mode = ''Same'', ext_fixed = [] \<rparr>"

subsection \<open>\<^verbatim>\<open>RenamingEngine.process\<close>, stage by stage\<close>

text \<open>
  The call \<^verbatim>\<open>re.sub(pattern, repl, stem)\<close> of the first stage runs the platform's
  regular-expression engine on a pattern of the user; it is a parameter of the model:
  a function that returns the new text or the exception raised. The Unicode tables are the
  second parameter.
\<close>

type_synonym re_sub = "string \<Rightarrow> string \<Rightarrow> string \<Rightarrow> py_exn + string"

definition stage_regex :: "re_sub \<Rightarrow> rename_config \<Rightarrow> string \<Rightarrow> py_exn + string" where
  \<comment> \<open>1. RegEx: \<^verbatim>\<open>except re.error: pass\<close> catches that exception and no other\<close>
  "stage_regex re cfg stem =
     (if regex_match cfg \<noteq> [] then
        (let pattern = (if regex_simple cfg
                        then str_replace [backslash, CHR ''*''] ''.*'' (re_escape (regex_match cfg))
                        else regex_match cfg)
         in case re pattern (regex_replace cfg) stem of
              Inl e \<Rightarrow> (if e = ReError then Inr stem else Inl e)
            | Inr s \<Rightarrow> Inr s)
      else Inr stem)"

definition stage_name :: "rename_config \<Rightarrow> string \<Rightarrow> string" where
  \<comment> \<open>2. Name\<close>
  "stage_name cfg stem =
     (if name_mode cfg = ''Remove'' then []
      else if name_mode cfg = ''Fixed'' then name_fixed cfg
      else if name_mode cfg = ''Reverse'' then rev stem
      else stem)"

definition stage_replace :: "char unicode_tables \<Rightarrow> rename_config \<Rightarrow> string \<Rightarrow> py_exn + string" where
  \<comment> \<open>3. Replace: no exception is caught here\<close>
  "stage_replace db cfg stem =
     (if replace_str cfg \<noteq> [] then
        (if replace_case cfg then Inr (str_replace (replace_str cfg) (replace_with cfg) stem)
         else re_sub_literal_ic db (replace_str cfg) (replace_with cfg) stem)
      else Inr stem)"

definition remove_first_n :: "rename_config \<Rightarrow> string \<Rightarrow> string" where
  "remove_first_n cfg stem =
     (if remove_first cfg > 0 then slice_from stem (remove_first cfg) else stem)"

definition remove_last_n :: "rename_config \<Rightarrow> string \<Rightarrow> string" where
  "remove_last_n cfg stem =
     (if remove_last cfg > 0 \<and> int (length stem) > remove_last cfg
      then slice_to stem (- remove_last cfg) else stem)"

definition remove_range :: "rename_config \<Rightarrow> string \<Rightarrow> string" where
  "remove_range cfg stem =
     (if remove_from cfg > 0 \<or> remove_to cfg > 0 then
        (let start = max 0 (remove_from cfg - 1);
             end_pos = (if remove_to cfg > 0 then remove_to cfg else int (length stem))
         in if start < int (length stem) then slice_to stem start @ slice_from stem end_pos
            else stem)
      else stem)"

definition remove_char_set :: "rename_config \<Rightarrow> string \<Rightarrow> string" where
  "remove_char_set cfg stem =
     (if remove_chars cfg \<noteq> [] then str_remove_chars (remove_chars cfg) stem else stem)"

definition stage_remove :: "rename_config \<Rightarrow> string \<Rightarrow> string" where
  \<comment> \<open>5. Remove: first n, last n, from/to range, specific characters\<close>
  "stage_remove cfg stem =
     remove_char_set cfg (remove_range cfg (remove_last_n cfg (remove_first_n cfg stem)))"

definition stage_add :: "rename_config \<Rightarrow> string \<Rightarrow> string" where
  \<comment> \<open>7. Add\<close>
  "stage_add cfg stem =
     (let stem1 = (if add_prefix cfg \<noteq> [] then add_prefix cfg @ stem else stem);
          stem2 = (if add_suffix cfg \<noteq> [] then stem1 @ add_suffix cfg else stem1)
      in if add_insert cfg \<noteq> [] then
           (let pos = add_at_pos cfg
            in if pos \<ge> int (length stem2) then stem2 @ add_insert cfg
               else slice_to stem2 pos @ add_insert cfg @ slice_from stem2 pos)
         else stem2)"

definition full_num_str :: "rename_config \<Rightarrow> int \<Rightarrow> string" where
  "full_num_str cfg index =
     (let num_val = num_start cfg + index * num_incr cfg;
          num_str = zfill (str_of_int num_val) (num_pad cfg)
      in if num_mode cfg = ''Suffix'' then num_sep cfg @ num_str else num_str @ num_sep cfg)"

definition stage_numbering :: "rename_config \<Rightarrow> int \<Rightarrow> string \<Rightarrow> string" where
  \<comment> \<open>10. Numbering\<close>
  "stage_numbering cfg index stem =
     (if num_mode cfg \<noteq> ''None'' then
        (if num_mode cfg = ''Prefix'' then full_num_str cfg index @ stem
         else if num_mode cfg = ''Suffix'' then stem @ full_num_str cfg index
         else if num_mode cfg = ''Insert'' then
           (let pos = num_at cfg
            in slice_to stem pos @ full_num_str cfg index @ slice_from stem pos)
         else stem)
      else stem)"

definition stage_case :: "'c unicode_tables \<Rightarrow> rename_config \<Rightarrow> 'c list \<Rightarrow> 'c list" where
  \<comment> \<open>4. Case, applied to the stem that results from the stages above\<close>
  "stage_case db cfg stem =
     (if case_mode cfg = ''Lower'' then str_lower db stem
      else if case_mode cfg = ''Upper'' then str_upper db stem
      else if case_mode cfg = ''Title'' then str_title db stem
      else stem)"

definition stage_ext :: "char unicode_tables \<Rightarrow> rename_config \<Rightarrow> string \<Rightarrow> string" where
  \<comment> \<open>11. Extension\<close>
  "stage_ext db cfg ext =
     (if ext_mode cfg = ''Lower'' then str_lower db ext
      else if ext_mode cfg = ''Upper'' then str_upper db ext
      else if ext_mode cfg = ''Remove'' then []
      else if ext_mode cfg = ''Fixed'' then
        (if take 1 (ext_fixed cfg) \<noteq> ''.'' then ''.'' @ ext_fixed cfg else ext_fixed cfg)
      else ext)"

definition process :: "re_sub \<Rightarrow> char unicode_tables \<Rightarrow> string \<Rightarrow> rename_config \<Rightarrow> int \<Rightarrow> py_exn + string" where
  "process re db original_name cfg index =
     (let p = parse_path original_name;
          stem = path_stem p;
          ext = path_suffix p
      in case stage_regex re cfg stem of
           Inl e \<Rightarrow> Inl e
         | Inr stem1 \<Rightarrow>
             (case stage_replace db cfg (stage_name cfg stem1) of
                Inl e \<Rightarrow> Inl e
              | Inr stem3 \<Rightarrow>
                  Inr (stage_case db cfg (stage_numbering cfg index (stage_add cfg (stage_remove cfg stem3)))
                       @ stage_ext db cfg ext)))"

subsection \<open>\<^verbatim>\<open>FileItem\<close> and \<^verbatim>\<open>FileTableModel\<close>\<close>

record file_item =
  path :: pure_path
  original_name :: string
  new_name :: string
  size :: int
  modified :: real
  status :: string

definition new_file_item :: "pure_path \<Rightarrow> int \<Rightarrow> real \<Rightarrow> file_item" where
  \<comment> \<open>the item that \<^verbatim>\<open>load_directory\<close> builds for a directory entry; \<^verbatim>\<open>status\<close> takes the
      default of the dataclass\<close>
  "new_file_item entry st_size st_mtime =
     \<lparr> path = entry, original_name = path_name entry, new_name = path_name entry,
       size = st_size, modified = st_mtime, status = ''OK'' \<rparr>"

fun previews_from :: "re_sub \<Rightarrow> char unicode_tables \<Rightarrow> rename_config \<Rightarrow> nat \<Rightarrow> file_item list \<Rightarrow> file_item list \<times> py_exn option" where
  \<comment> \<open>the loop of \<^verbatim>\<open>update_previews\<close> from position \<open>i\<close> on: the list as the loop leaves it,
      and the exception that ended it, if one did\<close>
  "previews_from re db cfg i [] = ([], None)"
| "previews_from re db cfg i (item # rest) =
     (case process re db (original_name item) cfg (int i + 1) of
        Inl e \<Rightarrow> (item # rest, Some e)
      | Inr n \<Rightarrow>
          (case previews_from re db cfg (Suc i) rest of
             (rest', r) \<Rightarrow> (item\<lparr>new_name := n\<rparr> # rest', r)))"

definition update_previews :: "re_sub \<Rightarrow> char unicode_tables \<Rightarrow> rename_config \<Rightarrow> file_item list \<Rightarrow> file_item list \<times> py_exn option" where
  "update_previews re db cfg files = previews_from re db cfg 0 files"

datatype colour = Red | Green

definition data_foreground :: "file_item list \<Rightarrow> nat \<Rightarrow> colour option" where
  \<comment> \<open>\<^verbatim>\<open>data(index, ForegroundRole)\<close> in the column of the new name\<close>
  "data_foreground files row =
     (if row < length files then
        (let item = files ! row
         in if new_name item \<noteq> original_name item then
              (let all_new_names = map new_name files
               in if count_list all_new_names (new_name item) > 1 then Some Red else Some Green)
            else None)
      else None)"

definition data_status :: "file_item list \<Rightarrow> nat \<Rightarrow> string option" where
  \<comment> \<open>\<^verbatim>\<open>data(index, DisplayRole)\<close> in the status column\<close>
  "data_status files row = (if row < length files then Some (status (files ! row)) else None)"

subsection \<open>The loop of \<^verbatim>\<open>execute_rename\<close>\<close>

text \<open>
  \<^verbatim>\<open>os.rename\<close> is a parameter: from a state of the file system, the old and the new
  path, it gives the next state and the message of the exception, if it raised one.
\<close>

type_synonym 'fs os_rename = "'fs \<Rightarrow> pure_path \<Rightarrow> pure_path \<Rightarrow> 'fs \<times> string option"

fun rename_loop :: "'fs os_rename \<Rightarrow> file_item list \<Rightarrow> 'fs \<times> nat \<times> string list \<Rightarrow> 'fs \<times> nat \<times> string list" where
  \<comment> \<open>the state is the file system, \<^verbatim>\<open>success_count\<close> and \<^verbatim>\<open>errors\<close>\<close>
  "rename_loop os_rename [] st = st"
| "rename_loop os_rename (item # rest) (fs, success_count, errors) =
     (if original_name item = new_name item then rename_loop os_rename rest (fs, success_count, errors)
      else
        (let old_path = path item;
             new_path = joinpath (path_parent old_path) (new_name item)
         in case os_rename fs old_path new_path of
              (fs', None) \<Rightarrow> rename_loop os_rename rest (fs', success_count + 1, errors)
            | (fs', Some msg) \<Rightarrow>
                rename_loop os_rename rest
                  (fs', success_count, errors @ [original_name item @ '': '' @ msg])))"

fun str_join :: "string \<Rightarrow> string list \<Rightarrow> string" where
  \<comment> \<open>\<^verbatim>\<open>sep.join(xs)\<close>\<close>
  "str_join sep [] = []"
| "str_join sep [x] = x"
| "str_join sep (x # y # ys) = x @ sep @ str_join sep (y # ys)"

definition result_message :: "nat \<Rightarrow> string list \<Rightarrow> string" where
  \<comment> \<open>the text of the result dialog: the count, and of the errors their number and the
      first five\<close>
  "result_message success_count errors =
     (let msg = ''Renamed '' @ str_of_int (int success_count) @ '' files.''
      in if errors \<noteq> [] then
           msg @ [CHR 0x0A, CHR 0x0A] @ ''Errors ('' @ str_of_int (int (length errors)) @ ''):'' @
             [CHR 0x0A] @ str_join [CHR 0x0A] (take 5 errors)
         else msg)"

definition execute_rename :: "'fs os_rename \<Rightarrow> bool \<Rightarrow> file_item list \<Rightarrow> 'fs \<Rightarrow> ('fs \<times> string) option" where
  \<comment> \<open>nothing happens on an empty table or when the user answers No; otherwise the loop runs
      and the result dialog shows the message built from its counters\<close>
  "execute_rename os_rename reply_yes files fs =
     (if length files = 0 then None
      else if reply_yes then
        (case rename_loop os_rename files (fs, 0, []) of
           (fs', success_count, errors) \<Rightarrow> Some (fs', result_message success_count errors))
      else None)"

subsection \<open>Reference notions used to state the properties\<close>

text \<open>
  Reading a decimal numeral back: an optional minus sign followed by at least one digit.
  The numbering stage is specified by what its token reads back to.
\<close>

definition digit_value :: "char \<Rightarrow> nat option" where
  "digit_value c = map_of (zip ''0123456789'' [0, 1, 2, 3, 4, 5, 6, 7, 8, 9]) c"

fun read_digits :: "nat \<Rightarrow> string \<Rightarrow> nat option" where
  "read_digits acc [] = Some acc"
| "read_digits acc (c # cs) =
     (case digit_value c of None \<Rightarrow> None | Some d \<Rightarrow> read_digits (10 * acc + d) cs)"

definition read_decimal :: "string \<Rightarrow> int option" where
  "read_decimal s =
     (case s of
        [] \<Rightarrow> None
      | c # cs \<Rightarrow>
          if c = CHR ''-'' then (if cs = [] then None else map_option (\<lambda>n. - int n) (read_digits 0 cs))
          else map_option int (read_digits 0 s))"

definition padded_number :: "rename_config \<Rightarrow> int \<Rightarrow> string" where
  \<comment> \<open>the zero-padded decimal text of \<open>start + index * increment\<close>\<close>
  "padded_number cfg index = zfill (str_of_int (num_start cfg + index * num_incr cfg)) (num_pad cfg)"

definition ascii_isidentifier :: "string \<Rightarrow> bool" where
  "ascii_isidentifier s =
     (s \<noteq> [] \<and> \<not> list_ex (\<lambda>d. d \<in> set ''0123456789'') (take 1 s) \<and>
      list_all (\<lambda>d. ascii_letter d \<or> d \<in> set ''0123456789'' \<or> d = CHR ''_'') s)"

definition ascii_tables :: "char unicode_tables" where
  \<comment> \<open>the tables on ASCII text, where a mapping is one character and only the letters
      \<^verbatim>\<open>A\<close> to \<^verbatim>\<open>Z\<close> and \<^verbatim>\<open>a\<close> to \<^verbatim>\<open>z\<close> are cased; the examples, all of ASCII text, are evaluated
      with them\<close>
  "ascii_tables =
     \<lparr> is_cased = ascii_letter,
       to_title_full = (\<lambda>c. [char_upper c]),
       to_upper_full = (\<lambda>c. [char_upper c]),
       lower_ucs4 = (\<lambda>s i. [char_lower (s ! i)]),
       ic_match = (\<lambda>p c. char_lower p = char_lower c),
       isidentifier = ascii_isidentifier \<rparr>"

definition no_re :: re_sub where
  \<comment> \<open>an engine that rejects every pattern; it stands for the platform's engine in the
      examples, none of which sets a pattern for the first stage\<close>
  "no_re pattern repl s = Inl ReError"

definition suffix_config :: rename_config where
  \<comment> \<open>numbering mode Suffix, start 1, increment 1, width 2, separator \<^verbatim>\<open>_\<close>\<close>
  "suffix_config = default_config\<lparr>num_mode := ''Suffix'', num_pad := 2, num_sep := ''_''\<rparr>"

definition spec_extension :: "string \<Rightarrow> string" where
  \<comment> \<open>the extension in the words of the specification: the text from the last dot onward,
      empty if there is no dot or the name is a dotfile with no further dot\<close>
  "spec_extension name =
     (if CHR ''.'' \<notin> set name \<or> (take 1 name = ''.'' \<and> CHR ''.'' \<notin> set (drop 1 name)) then []
      else CHR ''.'' # rev (takeWhile (\<lambda>c. c \<noteq> CHR ''.'') (rev name)))"

definition ab_files :: "file_item list" where
  \<comment> \<open>the batch of \<^verbatim>\<open>a.txt\<close> and \<^verbatim>\<open>b.txt\<close>, as \<^verbatim>\<open>load_directory\<close> builds it\<close>
  "ab_files =
     [new_file_item (parse_path ''/d/a.txt'') 0 0, new_file_item (parse_path ''/d/b.txt'') 0 0]"

definition bad_replacement_config :: rename_config where
  \<comment> \<open>replace \<^verbatim>\<open>a\<close>, letter case ignored, by a text that is one backslash\<close>
  "bad_replacement_config = default_config\<lparr>replace_str := ''a'', replace_with := [backslash]\<rparr>"

definition is_space :: "char \<Rightarrow> bool" where
  "is_space c = (c \<in> set ([CHR '' '', CHR 0x09, CHR 0x0A, CHR 0x0B, CHR 0x0C, CHR 0x0D]))"

fun title_ws_from :: "char unicode_tables \<Rightarrow> bool \<Rightarrow> string \<Rightarrow> string" where
  \<comment> \<open>title case in the words of the specification: the first letter of each
      whitespace-delimited word is capitalised; the flag says that a word starts here\<close>
  "title_ws_from db start [] = []"
| "title_ws_from db start (c # cs) =
     (if is_space c then c # title_ws_from db True cs
      else (if start then to_title_full db c else [c]) @ title_ws_from db False cs)"

definition spec_title_ws :: "char unicode_tables \<Rightarrow> string \<Rightarrow> string" where
  "spec_title_ws db s = title_ws_from db True s"

definition title_config :: rename_config where
  "title_config = default_config\<lparr>case_mode := ''Title''\<rparr>"

definition fixed_name_config :: rename_config where
  \<comment> \<open>name mode Fixed with the text \<^verbatim>\<open>x\<close>\<close>
  "fixed_name_config = default_config\<lparr>name_mode := ''Fixed'', name_fixed := ''x''\<rparr>"

definition foo_bar_files :: "file_item list" where
  "foo_bar_files =
     [new_file_item (parse_path ''/d/foo.txt'') 0 0, new_file_item (parse_path ''/d/bar.txt'') 0 0]"

definition same_but_new_name :: "file_item \<Rightarrow> file_item \<Rightarrow> bool" where
  \<comment> \<open>two items agree in every field other than \<open>new_name\<close>\<close>
  "same_but_new_name a b =
     (path a = path b \<and> original_name a = original_name b \<and> size a = size b \<and>
      modified a = modified b \<and> status a = status b)"

definition x_foo_files :: "file_item list" where
  "x_foo_files =
     [new_file_item (parse_path ''/d/x.txt'') 0 0, new_file_item (parse_path ''/d/foo.txt'') 0 0]"

text \<open>
  What the specification says of the execution, as functions of the plan: the items that
  need a rename, the target of an item, the calls to expect, and the outcome of each
  attempt in plan order.
\<close>

definition changed :: "file_item \<Rightarrow> bool" where
  "changed item = (original_name item \<noteq> new_name item)"

definition rename_target :: "file_item \<Rightarrow> pure_path" where
  "rename_target item = joinpath (path_parent (path item)) (new_name item)"

definition rename_calls :: "file_item list \<Rightarrow> (pure_path \<times> pure_path) list" where
  "rename_calls files = map (\<lambda>item. (path item, rename_target item)) (filter changed files)"

fun outcomes :: "'fs os_rename \<Rightarrow> 'fs \<Rightarrow> file_item list \<Rightarrow> (file_item \<times> string option) list" where
  \<comment> \<open>each attempted item with the message of its failure, if it failed\<close>
  "outcomes os_rename fs [] = []"
| "outcomes os_rename fs (item # rest) =
     (if changed item then
        (case os_rename fs (path item) (rename_target item) of
           (fs', r) \<Rightarrow> (item, r) # outcomes os_rename fs' rest)
      else outcomes os_rename fs rest)"

definition failure_entry :: "file_item \<times> string option \<Rightarrow> string option" where
  "failure_entry x =
     (case snd x of None \<Rightarrow> None | Some msg \<Rightarrow> Some (original_name (fst x) @ '': '' @ msg))"

definition succeeded :: "file_item \<times> string option \<Rightarrow> bool" where
  "succeeded x = (snd x = None)"

definition traced :: "'fs os_rename \<Rightarrow> ('fs \<times> (pure_path \<times> pure_path) list) os_rename" where
  \<comment> \<open>the same operation, keeping a log of the calls made\<close>
  "traced os_rename st old_path new_path =
     (case os_rename (fst st) old_path new_path of
        (fs', r) \<Rightarrow> ((fs', snd st @ [(old_path, new_path)]), r))"

definition plain_name :: "string \<Rightarrow> bool" where
  \<comment> \<open>a single path component other than \<^verbatim>\<open>.\<close>\<close>
  "plain_name n = (CHR ''/'' \<notin> set n \<and> n \<noteq> [] \<and> n \<noteq> ''.'')"

definition subdir_config :: rename_config where
  \<comment> \<open>the prefix \<^verbatim>\<open>s/\<close> is put before every stem\<close>
  "subdir_config = default_config\<lparr>add_prefix := ''s/''\<rparr>"

definition refuse_b :: "unit os_rename" where
  \<comment> \<open>a file system that refuses to rename \<^verbatim>\<open>/d/b.txt\<close> and accepts every other call\<close>
  "refuse_b fs old_path new_path =
     (if old_path = parse_path ''/d/b.txt'' then (fs, Some ''denied'') else (fs, None))"

definition mixed_plan :: "file_item list" where
  \<comment> \<open>a plan of three items: \<^verbatim>\<open>b.txt\<close> to \<^verbatim>\<open>y.txt\<close>, \<^verbatim>\<open>c.txt\<close> unchanged, \<^verbatim>\<open>a.txt\<close> to \<^verbatim>\<open>z.txt\<close>\<close>
  "mixed_plan =
     [(new_file_item (parse_path ''/d/b.txt'') 0 0)\<lparr>new_name := ''y.txt''\<rparr>,
      new_file_item (parse_path ''/d/c.txt'') 0 0,
      (new_file_item (parse_path ''/d/a.txt'') 0 0)\<lparr>new_name := ''z.txt''\<rparr>]"

section \<open>Properties\<close>

subsection \<open>Decimal text of the running number\<close>

lemma digit_value_digit_char: "d < 10 \<Longrightarrow> digit_value (digit_char d) = Some d"
proof -
  assume "d < 10"
  then consider "d = 0" | "d = 1" | "d = 2" | "d = 3" | "d = 4" | "d = 5" | "d = 6" | "d = 7" | "d = 8" | "d = 9"
    by atomize_elim arith
  then show ?thesis
    by cases (hypsubst, simp add: digit_value_def digit_char_def)+
qed

lemma read_digits_append:
  "read_digits acc (xs @ ys) = (case read_digits acc xs of None \<Rightarrow> None | Some a \<Rightarrow> read_digits a ys)"
  by (induction xs arbitrary: acc) (auto split: option.splits)

lemma read_digits_nat_digits:
  "read_digits acc (nat_digits n) = Some (acc * 10 ^ length (nat_digits n) + n)"
proof (induction n arbitrary: acc rule: nat_digits.induct)
  case (1 n)
  show ?case
  proof (cases "n < 10")
    case True
    then show ?thesis
      by (simp add: nat_digits.simps [of n] digit_value_digit_char)
  next
    case False
    have "read_digits acc (nat_digits n) =
            read_digits acc (nat_digits (n div 10) @ [digit_char (n mod 10)])"
      using False by (simp add: nat_digits.simps [of n])
    also have "\<dots> = Some (10 * (acc * 10 ^ length (nat_digits (n div 10)) + n div 10) + n mod 10)"
      using False by (simp add: read_digits_append "1.IH" digit_value_digit_char)
    also have "\<dots> = Some (acc * 10 ^ length (nat_digits n) + n)"
      using False by (simp add: nat_digits.simps [of n] algebra_simps)
    finally show ?thesis .
  qed
qed

lemma read_digits_zeros: "read_digits acc (replicate k CHR ''0'') = Some (acc * 10 ^ k)"
  by (induction k arbitrary: acc) (simp_all add: digit_value_def)

lemma nat_digits_nonempty: "nat_digits n \<noteq> []"
  by (simp add: nat_digits.simps [of n])

lemma digit_char_is_digit: "d < 10 \<Longrightarrow> is_digit (digit_char d)"
proof -
  assume "d < 10"
  then consider "d = 0" | "d = 1" | "d = 2" | "d = 3" | "d = 4" | "d = 5" | "d = 6" | "d = 7" | "d = 8" | "d = 9"
    by atomize_elim arith
  then show ?thesis
    by cases (simp_all add: is_digit_def digit_char_def)
qed

lemma nat_digits_are_digits: "\<forall>c \<in> set (nat_digits n). is_digit c"
proof (induction n rule: nat_digits.induct)
  case (1 n)
  show ?case
  proof (cases "n < 10")
    case True
    then show ?thesis by (simp add: nat_digits.simps [of n] digit_char_is_digit)
  next
    case False
    then show ?thesis
      using "1.IH" by (simp add: nat_digits.simps [of n] digit_char_is_digit)
  qed
qed

lemma nat_digits_Cons: "\<exists>c cs. nat_digits n = c # cs \<and> is_digit c"
proof (cases "nat_digits n")
  case Nil
  then show ?thesis using nat_digits_nonempty [of n] by simp
next
  case (Cons c cs)
  then have "c \<in> set (nat_digits n)" by simp
  then have "is_digit c" using nat_digits_are_digits [of n] by (rule_tac bspec)
  with Cons show ?thesis by simp
qed

lemma digit_not_sign: "is_digit c \<Longrightarrow> c \<noteq> CHR ''+'' \<and> c \<noteq> CHR ''-''"
  by (auto simp: is_digit_def)

lemma zfill_unsigned:
  assumes "is_digit c"
  shows "zfill (c # cs) w = replicate (nat (w - int (length (c # cs)))) CHR ''0'' @ c # cs"
  using digit_not_sign [OF assms] by (simp add: zfill_def Let_def)

lemma zfill_negative:
  "zfill (CHR ''-'' # ds) w = CHR ''-'' # replicate (nat (w - int (length (CHR ''-'' # ds)))) CHR ''0'' @ ds"
  by (simp add: zfill_def Let_def)

lemma read_digits_padded:
  "read_digits 0 (replicate k CHR ''0'' @ nat_digits n) = Some n"
  by (simp add: read_digits_append read_digits_zeros read_digits_nat_digits)

lemma read_decimal_unsigned:
  "is_digit c \<Longrightarrow> read_decimal (c # cs) = map_option int (read_digits 0 (c # cs))"
  using digit_not_sign [of c] by (simp add: read_decimal_def)

lemma read_decimal_negative:
  "ds \<noteq> [] \<Longrightarrow> read_decimal (CHR ''-'' # ds) = map_option (\<lambda>n. - int n) (read_digits 0 ds)"
  by (simp add: read_decimal_def)

lemma padded_Cons:
  "\<exists>c cs. replicate k CHR ''0'' @ nat_digits n = c # cs \<and> is_digit c"
proof (cases k)
  case 0
  then show ?thesis using nat_digits_Cons [of n] by simp
next
  case (Suc m)
  then show ?thesis by (simp add: is_digit_def)
qed

lemma read_decimal_zfill: "read_decimal (zfill (str_of_int v) w) = Some v"
proof (cases "v < 0")
  case True
  define k where "k = nat (w - int (length (CHR ''-'' # nat_digits (nat (- v)))))"
  have z: "zfill (str_of_int v) w = CHR ''-'' # replicate k CHR ''0'' @ nat_digits (nat (- v))"
    using True unfolding k_def str_of_int_def by (simp only: if_True zfill_negative)
  have ne: "replicate k CHR ''0'' @ nat_digits (nat (- v)) \<noteq> []"
    using nat_digits_nonempty by simp
  have "read_decimal (zfill (str_of_int v) w) =
          map_option (\<lambda>n. - int n) (read_digits 0 (replicate k CHR ''0'' @ nat_digits (nat (- v))))"
    unfolding z by (rule read_decimal_negative [OF ne])
  also have "\<dots> = Some (- int (nat (- v)))"
    by (simp only: read_digits_padded option.map)
  also have "\<dots> = Some v"
    using True by simp
  finally show ?thesis .
next
  case False
  obtain c cs where eq: "nat_digits (nat v) = c # cs" and dc: "is_digit c"
    using nat_digits_Cons by blast
  define k where "k = nat (w - int (length (c # cs)))"
  have z: "zfill (str_of_int v) w = replicate k CHR ''0'' @ nat_digits (nat v)"
    using False zfill_unsigned [OF dc, of cs w] unfolding k_def str_of_int_def eq by simp
  obtain d ds where eq2: "replicate k CHR ''0'' @ nat_digits (nat v) = d # ds" and dd: "is_digit d"
    using padded_Cons by blast
  have "read_decimal (zfill (str_of_int v) w) = map_option int (read_digits 0 (d # ds))"
    unfolding z eq2 by (rule read_decimal_unsigned [OF dd])
  also have "\<dots> = map_option int (read_digits 0 (replicate k CHR ''0'' @ nat_digits (nat v)))"
    unfolding eq2 ..
  also have "\<dots> = Some (int (nat v))"
    by (simp only: read_digits_padded option.map)
  also have "\<dots> = Some v"
    using False by simp
  finally show ?thesis .
qed

lemma length_zfill: "int (length (zfill s w)) = max w (int (length s))"
  by (auto simp: zfill_def Let_def split: list.splits)

subsection \<open>The numbering token (C2)\<close>

text \<open>
  C2. When the numbering mode is not None, the numbering stage builds its token from
  \<open>value = start + sequence_index * increment\<close>: the number is the decimal text of the
  value, zero-padded to the configured width (it reads back as the value and its length is
  the larger of the width and the length of the unpadded text); the separator comes before
  the number in Suffix mode and after it in Prefix and Insert mode; the token is appended,
  prepended or spliced in at the configured position.
\<close>

theorem numbering_token:
  assumes "num_mode cfg \<noteq> ''None''"
  shows "full_num_str cfg index =
           (if num_mode cfg = ''Suffix'' then num_sep cfg @ padded_number cfg index
            else padded_number cfg index @ num_sep cfg)
       \<and> read_decimal (padded_number cfg index) = Some (num_start cfg + index * num_incr cfg)
       \<and> int (length (padded_number cfg index)) =
             max (num_pad cfg) (int (length (str_of_int (num_start cfg + index * num_incr cfg))))
       \<and> (num_mode cfg = ''Suffix'' \<longrightarrow>
             stage_numbering cfg index stem = stem @ num_sep cfg @ padded_number cfg index)
       \<and> (num_mode cfg = ''Prefix'' \<longrightarrow>
             stage_numbering cfg index stem = padded_number cfg index @ num_sep cfg @ stem)
       \<and> (num_mode cfg = ''Insert'' \<longrightarrow>
             stage_numbering cfg index stem =
               slice_to stem (num_at cfg) @ padded_number cfg index @ num_sep cfg @
               slice_from stem (num_at cfg))"
  using assms
  by (simp add: full_num_str_def stage_numbering_def padded_number_def Let_def
        read_decimal_zfill length_zfill)

theorem numbering_token_witness:
  "num_mode suffix_config \<noteq> ''None'' \<and>
   full_num_str suffix_config 1 = ''_'' @ padded_number suffix_config 1 \<and>
   read_decimal (padded_number suffix_config 1) = Some 2 \<and>
   stage_numbering suffix_config 1 ''a'' = ''a_'' @ padded_number suffix_config 1"
proof -
  have h: "num_mode suffix_config \<noteq> ''None''"
    by (simp add: suffix_config_def default_config_def)
  show ?thesis
    using h numbering_token [OF h, of 1 "''a''"]
    by (simp add: suffix_config_def default_config_def)
qed

subsection \<open>Range removal with an unset start (C10)\<close>

text \<open>
  C10. In the range-removal step, when \<open>remove_from\<close> is 0 and \<open>remove_to\<close> is
  \<open>t > 0\<close>, the first \<open>t\<close> characters of the stem are removed (the unset start acts as
  position 1); when both are 0 the step leaves the stem as it is.
\<close>

theorem remove_range_unset_from:
  "(remove_from cfg = 0 \<and> 0 < remove_to cfg \<longrightarrow>
      remove_range cfg stem = drop (nat (remove_to cfg)) stem) \<and>
   (remove_from cfg = 0 \<and> remove_to cfg = 0 \<longrightarrow> remove_range cfg stem = stem)"
  by (cases stem) (simp_all add: remove_range_def slice_to_def slice_from_def)

theorem remove_range_unset_from_witness:
  "remove_range (default_config\<lparr>remove_to := 3\<rparr>) ''abcdef'' = ''def'' \<and>
   remove_range default_config ''abcdef'' = ''abcdef''"
  using remove_range_unset_from [of "default_config\<lparr>remove_to := 3\<rparr>" "''abcdef''"]
        remove_range_unset_from [of default_config "''abcdef''"]
  by (simp add: default_config_def)

subsection \<open>The split into stem and extension (C7)\<close>

lemma split_on_no_sep: "sep \<notin> set s \<Longrightarrow> split_on sep s = [s]"
  by (induction s) auto

lemma parse_path_component:
  assumes "CHR ''/'' \<notin> set name"
  shows "parse_path name = \<lparr>anchor = [], tail = (if name = [] \<or> name = ''.'' then [] else [name])\<rparr>"
proof -
  have "take 1 name \<noteq> ''/''"
    using assms by (cases name) auto
  then show ?thesis
    using assms by (simp add: parse_path_def split_on_no_sep)
qed

lemma path_name_component:
  assumes "CHR ''/'' \<notin> set name" and "name \<noteq> ''.''"
  shows "path_name (parse_path name) = name"
  using assms by (simp add: parse_path_component path_name_def)

lemma rfind_absent: "c \<notin> set s \<Longrightarrow> rfind c s = - 1"
  by (induction s) (auto simp: Let_def)

lemma rfind_last_occurrence: "c \<notin> set zs \<Longrightarrow> rfind c (ys @ c # zs) = int (length ys)"
  by (induction ys) (auto simp: Let_def rfind_absent)

lemma stem_suffix_join: "path_stem p @ path_suffix p = path_name p"
  by (simp add: path_stem_def path_suffix_def Let_def slice_to_def slice_from_def)

lemma suffix_of_split:
  assumes "CHR ''.'' \<notin> set zs" and "path_name p = ys @ CHR ''.'' # zs"
  shows "path_suffix p = (if ys = [] \<or> zs = [] then [] else CHR ''.'' # zs)"
  using assms by (auto simp: path_suffix_def Let_def rfind_last_occurrence slice_from_def)

lemma stem_of_split:
  assumes "CHR ''.'' \<notin> set zs" and "path_name p = ys @ CHR ''.'' # zs"
  shows "path_stem p = (if ys = [] \<or> zs = [] then path_name p else ys)"
  using assms by (auto simp: path_stem_def Let_def rfind_last_occurrence slice_to_def)

lemma suffix_no_dot:
  assumes "CHR ''.'' \<notin> set (path_name p)"
  shows "path_suffix p = []"
  using assms by (simp add: path_suffix_def Let_def rfind_absent)

lemma spec_extension_of_split:
  assumes "CHR ''.'' \<notin> set zs"
  shows "spec_extension (ys @ CHR ''.'' # zs) = (if ys = [] then [] else CHR ''.'' # zs)"
proof (cases ys)
  case Nil
  then show ?thesis using assms by (simp add: spec_extension_def)
next
  case (Cons y ys')
  have tw: "takeWhile (\<lambda>c. c \<noteq> CHR ''.'') (rev zs @ CHR ''.'' # rev ys) = rev zs"
  proof -
    have "\<And>x. x \<in> set (rev zs) \<Longrightarrow> x \<noteq> CHR ''.''"
      using assms by auto
    then have "takeWhile (\<lambda>c. c \<noteq> CHR ''.'') (rev zs @ CHR ''.'' # rev ys) =
                 rev zs @ takeWhile (\<lambda>c. c \<noteq> CHR ''.'') (CHR ''.'' # rev ys)"
      by (rule takeWhile_append2)
    then show ?thesis by simp
  qed
  show ?thesis
    using Cons assms tw by (simp add: spec_extension_def)
qed

lemma suffix_characterisation:
  assumes "CHR ''/'' \<notin> set name"
  shows "path_suffix (parse_path name) =
           (if name \<noteq> [] \<and> last name = CHR ''.'' then [] else spec_extension name)"
proof (cases "name = ''.''")
  case True
  then show ?thesis
    by (simp add: parse_path_component path_suffix_def path_name_def Let_def)
next
  case False
  have pn: "path_name (parse_path name) = name"
    using assms False by (rule path_name_component)
  show ?thesis
  proof (cases "CHR ''.'' \<in> set name")
    case no: False
    then have "path_suffix (parse_path name) = []"
      using pn by (simp add: suffix_no_dot)
    moreover have "spec_extension name = []"
      using no by (simp add: spec_extension_def)
    ultimately show ?thesis by simp
  next
    case True
    then obtain ys zs where eq: "name = ys @ CHR ''.'' # zs" and nz: "CHR ''.'' \<notin> set zs"
      using split_list_last [of "CHR ''.''" name] by blast
    have s1: "path_suffix (parse_path name) = (if ys = [] \<or> zs = [] then [] else CHR ''.'' # zs)"
      using nz pn eq by (simp add: suffix_of_split)
    have s2: "spec_extension name = (if ys = [] then [] else CHR ''.'' # zs)"
      unfolding eq using nz by (rule spec_extension_of_split)
    have s3: "(last name = CHR ''.'') = (zs = [])"
      using nz unfolding eq by (cases zs rule: rev_cases) auto
    show ?thesis
      unfolding s1 s2 using s3 eq by auto
  qed
qed


text \<open>
  C7, as the code has it. For a name without \<^verbatim>\<open>/\<close>, the extension is the text from the last
  dot onward, the dot included; it is empty if the name has no dot, if the name is a dotfile
  with no further dot, and also if the name ends with a dot. Stem and extension together
  give the name back. \<^verbatim>\<open>archive.tar.gz\<close> splits into \<^verbatim>\<open>archive.tar\<close> and \<^verbatim>\<open>.gz\<close>,
  \<^verbatim>\<open>.gitignore\<close> into itself and the empty extension.
\<close>

theorem stem_suffix_split:
  assumes "CHR ''/'' \<notin> set name"
  shows "path_suffix (parse_path name) =
           (if name \<noteq> [] \<and> last name = CHR ''.'' then [] else spec_extension name)
       \<and> (name \<noteq> ''.'' \<longrightarrow> path_stem (parse_path name) @ path_suffix (parse_path name) = name)
       \<and> path_stem (parse_path ''archive.tar.gz'') = ''archive.tar''
       \<and> path_suffix (parse_path ''archive.tar.gz'') = ''.gz''
       \<and> path_stem (parse_path ''.gitignore'') = ''.gitignore''
       \<and> path_suffix (parse_path ''.gitignore'') = []"
proof -
  have a: "path_suffix (parse_path name) =
             (if name \<noteq> [] \<and> last name = CHR ''.'' then [] else spec_extension name)"
    using assms by (rule suffix_characterisation)
  have b: "name \<noteq> ''.'' \<longrightarrow> path_stem (parse_path name) @ path_suffix (parse_path name) = name"
    using assms by (simp add: stem_suffix_join path_name_component)
  have c: "path_stem (parse_path ''archive.tar.gz'') = ''archive.tar''"
    by code_simp
  have d: "path_suffix (parse_path ''archive.tar.gz'') = ''.gz''"
    by code_simp
  have e: "path_stem (parse_path ''.gitignore'') = ''.gitignore''"
    by code_simp
  have f: "path_suffix (parse_path ''.gitignore'') = []"
    by code_simp
  from a b c d e f show ?thesis by blast
qed

theorem stem_suffix_split_witness:
  "CHR ''/'' \<notin> set ''report.final.pdf'' \<and>
   path_suffix (parse_path ''report.final.pdf'') = spec_extension ''report.final.pdf'' \<and>
   path_stem (parse_path ''report.final.pdf'') @ path_suffix (parse_path ''report.final.pdf'') =
     ''report.final.pdf''"
proof -
  have h: "CHR ''/'' \<notin> set ''report.final.pdf''"
    by simp
  note r = stem_suffix_split [OF h]
  have "path_suffix (parse_path ''report.final.pdf'') =
          (if ''report.final.pdf'' \<noteq> [] \<and> last ''report.final.pdf'' = CHR ''.'' then []
           else spec_extension ''report.final.pdf'')"
    using r by (rule conjunct1)
  then have a: "path_suffix (parse_path ''report.final.pdf'') = spec_extension ''report.final.pdf''"
    by simp
  have ne: "''report.final.pdf'' \<noteq> ''.''"
    by simp
  have b: "path_stem (parse_path ''report.final.pdf'') @ path_suffix (parse_path ''report.final.pdf'') =
             ''report.final.pdf''"
    using r ne by blast
  from h a b show ?thesis by blast
qed

text \<open>
  C7 as stated fails on a name that ends with a dot: \<^verbatim>\<open>notes.\<close> has a last dot and is no
  dotfile, so the stated extension is \<^verbatim>\<open>.\<close>, but the split gives the empty extension.
\<close>

theorem trailing_dot_counterexample:
  "path_suffix (parse_path ''notes.'') = [] \<and> spec_extension ''notes.'' = ''.'' \<and>
   path_stem (parse_path ''notes.'') = ''notes.''"
  by code_simp

subsection \<open>The identity configuration (C6)\<close>

text \<open>
  C6. With the identity configuration (no pattern, name mode Keep, no search text, case
  mode Same, removal counts and range zero, no characters to strip, no text to add,
  numbering mode None, extension mode Same), \<^verbatim>\<open>process\<close> returns the name unchanged, for
  every sequence index and every name of a file. The names that \<^verbatim>\<open>process\<close> is given are
  those of the entries of a directory (\<^verbatim>\<open>entry.name\<close> in \<^verbatim>\<open>load_directory\<close>): a name of a file
  is a single path component, so it has no \<^verbatim>\<open>/\<close> and is not \<^verbatim>\<open>.\<close>, which is what the last two
  assumptions say.
\<close>

theorem process_identity:
  assumes "regex_match cfg = []" and "name_mode cfg = ''Keep''" and "replace_str cfg = []"
    and "case_mode cfg = ''Same''"
    and "remove_first cfg = 0" and "remove_last cfg = 0"
    and "remove_from cfg = 0" and "remove_to cfg = 0" and "remove_chars cfg = []"
    and "add_prefix cfg = []" and "add_suffix cfg = []" and "add_insert cfg = []"
    and "num_mode cfg = ''None''" and "ext_mode cfg = ''Same''"
    and "CHR ''/'' \<notin> set name" and "name \<noteq> ''.''"
  shows "process re db name cfg index = Inr name"
proof -
  have split: "path_stem (parse_path name) @ path_suffix (parse_path name) = name"
    using assms(15,16) by (simp add: stem_suffix_join path_name_component)
  have s1: "stage_regex re cfg (path_stem (parse_path name)) = Inr (path_stem (parse_path name))"
    using assms(1) by (simp add: stage_regex_def)
  have s2: "\<And>s. stage_name cfg s = s"
    using assms(2) by (simp add: stage_name_def)
  have s3: "\<And>s. stage_replace db cfg s = Inr s"
    using assms(3) by (simp add: stage_replace_def)
  have s5: "\<And>s. stage_remove cfg s = s"
    using assms(5-9)
    by (simp add: stage_remove_def remove_first_n_def remove_last_n_def remove_range_def
          remove_char_set_def)
  have s7: "\<And>s. stage_add cfg s = s"
    using assms(10-12) by (simp add: stage_add_def)
  have s10: "\<And>s. stage_numbering cfg index s = s"
    using assms(13) by (simp add: stage_numbering_def)
  have s4: "\<And>s. stage_case db cfg s = s"
    using assms(4) by (simp add: stage_case_def)
  have s11: "\<And>s. stage_ext db cfg s = s"
    using assms(14) by (simp add: stage_ext_def)
  show ?thesis
    by (simp add: process_def Let_def s1 s2 s3 s5 s7 s10 s4 s11 split)
qed

theorem process_identity_witness:
  "process no_re ascii_tables ''report.final.pdf'' default_config 7 = Inr ''report.final.pdf''"
  using process_identity [of default_config "''report.final.pdf''" no_re ascii_tables 7]
  by (simp add: default_config_def)

subsection \<open>The scenario of two files numbered as suffix (C1)\<close>

text \<open>
  C1. For the names \<^verbatim>\<open>a.txt\<close> and \<^verbatim>\<open>b.txt\<close>, numbering mode Suffix, start 1, increment 1,
  width 2 and separator \<^verbatim>\<open>_\<close>, the preview pass computes \<^verbatim>\<open>a_02.txt\<close> and \<^verbatim>\<open>b_03.txt\<close>,
  not \<^verbatim>\<open>a_01.txt\<close> and \<^verbatim>\<open>b_02.txt\<close>: the pass hands the position plus one to a stage that
  adds index times increment to the start value.
\<close>

theorem suffix_numbering_scenario:
  "map new_name (fst (update_previews no_re ascii_tables suffix_config ab_files)) = [''a_02.txt'', ''b_03.txt''] \<and>
   snd (update_previews no_re ascii_tables suffix_config ab_files) = None \<and>
   map original_name ab_files = [''a.txt'', ''b.txt'']"
  by code_simp

subsection \<open>An exception that leaves \<^verbatim>\<open>process\<close> (C5)\<close>

text \<open>
  C5. \<^verbatim>\<open>process\<close> is not total: the replace stage compiles the replacement text as a
  template of \<^verbatim>\<open>re\<close> and catches nothing, so a replacement text that is a single backslash
  makes \<^verbatim>\<open>process\<close> raise \<^verbatim>\<open>re.error\<close>, whatever the regular-expression engine of the first
  stage does.
\<close>

theorem process_raises_on_backslash_replacement:
  "process re db ''a.txt'' bad_replacement_config 1 = Inl ReError"
proof -
  have t: "parse_template db [backslash] = Inl ReError"
    by (simp add: backslash_def)
  have r: "\<And>s. stage_replace db bad_replacement_config s = Inl ReError"
    by (simp add: stage_replace_def bad_replacement_config_def default_config_def
          re_sub_literal_ic_def t)
  have g: "\<And>s. stage_regex re bad_replacement_config s = Inr s"
    by (simp add: stage_regex_def bad_replacement_config_def default_config_def)
  show ?thesis
    by (simp add: process_def Let_def g r)
qed

subsection \<open>Title case (C8)\<close>

lemma title_from_positions:
  assumes "\<forall>j<length cs. cs ! j = s ! (i + j)"
  shows "title_from db s prev i cs =
           concat (map (\<lambda>k. if (if k = i then prev else is_cased db (s ! (k - 1)))
                             then lower_ucs4 db s k else to_title_full db (s ! k))
                       [i..<i + length cs])"
  using assms
proof (induction cs arbitrary: i prev)
  case Nil
  then show ?case by simp
next
  case (Cons c cs)
  have "0 < length (c # cs)" by simp
  with Cons.prems have "(c # cs) ! 0 = s ! (i + 0)" by blast
  then have c: "s ! i = c" by simp
  have tl: "\<forall>j<length cs. cs ! j = s ! (Suc i + j)"
  proof (intro allI impI)
    fix j assume "j < length cs"
    then have "Suc j < length (c # cs)" by simp
    with Cons.prems have "(c # cs) ! Suc j = s ! (i + Suc j)" by blast
    then show "cs ! j = s ! (Suc i + j)" by simp
  qed
  have ih: "title_from db s (is_cased db c) (Suc i) cs =
              concat (map (\<lambda>k. if (if k = Suc i then is_cased db c else is_cased db (s ! (k - 1)))
                                then lower_ucs4 db s k else to_title_full db (s ! k))
                          [Suc i..<Suc i + length cs])"
    using tl by (rule Cons.IH)
  have agree: "map (\<lambda>k. if (if k = Suc i then is_cased db c else is_cased db (s ! (k - 1)))
                         then lower_ucs4 db s k else to_title_full db (s ! k))
                   [Suc i..<Suc i + length cs] =
               map (\<lambda>k. if (if k = i then prev else is_cased db (s ! (k - 1)))
                         then lower_ucs4 db s k else to_title_full db (s ! k))
                   [Suc i..<Suc i + length cs]"
    by (rule map_cong) (auto simp: c)
  have range: "[i..<i + length (c # cs)] = i # [Suc i..<Suc i + length cs]"
  proof -
    have "i < i + length (c # cs)" by simp
    then have "[i..<i + length (c # cs)] = i # [Suc i..<i + length (c # cs)]"
      by (rule upt_conv_Cons)
    then show ?thesis by simp
  qed
  have "title_from db s prev i (c # cs) =
          (if prev then lower_ucs4 db s i else to_title_full db c) @
          title_from db s (is_cased db c) (Suc i) cs"
    by simp
  also have "\<dots> =
          (if prev then lower_ucs4 db s i else to_title_full db (s ! i)) @
          concat (map (\<lambda>k. if (if k = i then prev else is_cased db (s ! (k - 1)))
                            then lower_ucs4 db s k else to_title_full db (s ! k))
                      [Suc i..<Suc i + length cs])"
    by (simp only: ih agree c)
  also have "\<dots> =
          concat (map (\<lambda>k. if (if k = i then prev else is_cased db (s ! (k - 1)))
                            then lower_ucs4 db s k else to_title_full db (s ! k))
                      [i..<i + length (c # cs)])"
    by (simp only: range) simp
  finally show ?case .
qed

lemma str_title_positions:
  "str_title db s =
     concat (map (\<lambda>k. if 0 < k \<and> is_cased db (s ! (k - 1)) then lower_ucs4 db s k
                       else to_title_full db (s ! k))
                 [0..<length s])"
proof -
  have "\<forall>j<length s. s ! j = s ! (0 + j)"
    by simp
  then have "title_from db s False 0 s =
               concat (map (\<lambda>k. if (if k = 0 then False else is_cased db (s ! (k - 1)))
                                 then lower_ucs4 db s k else to_title_full db (s ! k))
                           [0..<0 + length s])"
    by (rule title_from_positions)
  moreover have "map (\<lambda>k. if (if k = 0 then False else is_cased db (s ! (k - 1)))
                           then lower_ucs4 db s k else to_title_full db (s ! k))
                     [0..<0 + length s] =
                 map (\<lambda>k. if 0 < k \<and> is_cased db (s ! (k - 1)) then lower_ucs4 db s k
                           else to_title_full db (s ! k))
                     [0..<length s]"
    by (rule map_cong) auto
  ultimately show ?thesis
    by (simp only: str_title_def)
qed

text \<open>
  C8, amended. With case mode Title the stage returns \<^verbatim>\<open>stem.title()\<close>, for every stem, of
  whatever characters, and whatever the Unicode tables say of them: the result is made of
  one piece for each character of the stem, in order; the piece is the lowercase mapping of
  the character if the character before it is cased, and the titlecase mapping of the
  character otherwise, that is, for the first character and for every character that
  follows an uncased one (a digit, a hyphen, a dot, an underscore, whitespace). A word
  begins after every uncased character, not after whitespace only.
\<close>

theorem title_case_stage:
  assumes "case_mode cfg = ''Title''"
  shows "stage_case db cfg stem =
           concat (map (\<lambda>k. if 0 < k \<and> is_cased db (stem ! (k - 1)) then lower_ucs4 db stem k
                             else to_title_full db (stem ! k))
                       [0..<length stem])"
proof -
  have "stage_case db cfg stem = str_title db stem"
    using assms by (simp add: stage_case_def)
  then show ?thesis
    by (simp only: str_title_positions)
qed

theorem title_case_stage_witness:
  "case_mode title_config = ''Title'' \<and>
   stage_case ascii_tables title_config ''my file-name'' = ''My File-Name''"
proof -
  have h: "case_mode title_config = ''Title''"
    by (simp add: title_config_def default_config_def)
  have "stage_case ascii_tables title_config ''my file-name'' =
          concat (map (\<lambda>k. if 0 < k \<and> is_cased ascii_tables (''my file-name'' ! (k - 1))
                            then lower_ucs4 ascii_tables ''my file-name'' k
                            else to_title_full ascii_tables (''my file-name'' ! k))
                      [0..<length ''my file-name''])"
    using h by (rule title_case_stage)
  also have "\<dots> = ''My File-Name''"
    by code_simp
  finally have "stage_case ascii_tables title_config ''my file-name'' = ''My File-Name''" .
  with h show ?thesis by (rule conjI)
qed

text \<open>
  The pieces need not be single characters. Where the tables give a cased character \<open>c\<close>
  a titlecase mapping \<open>t\<close>, as \<^verbatim>\<open>Ss\<close> for the sharp s, the stem made of \<open>c\<close> and a second
  character becomes \<open>t\<close> followed by the lowercase mapping of the second character.
\<close>

lemma title_case_two_characters:
  assumes "case_mode cfg = ''Title''" and "is_cased db c"
  shows "stage_case db cfg [c, d] = to_title_full db c @ lower_ucs4 db [c, d] 1"
  using assms by (simp add: stage_case_def str_title_def)

text \<open>
  C8 as stated fails where a letter follows a character that is neither a letter nor
  whitespace: in \<^verbatim>\<open>foo-bar\<close> the code capitalises the \<^verbatim>\<open>b\<close>, which does not start a
  whitespace-delimited word.
\<close>

theorem title_case_counterexample:
  "stage_case ascii_tables title_config ''foo-bar'' = ''Foo-Bar'' \<and>
   spec_title_ws ascii_tables ''foo-bar'' = ''Foo-bar''"
  by code_simp

subsection \<open>The planning pass (C3)\<close>

lemma previews_from_Cons_ok:
  assumes "process re db (original_name item) cfg (int i + 1) = Inr n"
  shows "previews_from re db cfg i (item # rest) =
           (item\<lparr>new_name := n\<rparr> # fst (previews_from re db cfg (Suc i) rest),
            snd (previews_from re db cfg (Suc i) rest))"
  using assms by (simp add: split_beta)

lemma previews_from_ok:
  assumes "\<forall>k<length files. \<exists>n. process re db (original_name (files ! k)) cfg (int (i + k) + 1) = Inr n"
  shows "snd (previews_from re db cfg i files) = None \<and>
         length (fst (previews_from re db cfg i files)) = length files \<and>
         (\<forall>k<length files.
            process re db (original_name (files ! k)) cfg (int (i + k) + 1) =
              Inr (new_name (fst (previews_from re db cfg i files) ! k)) \<and>
            same_but_new_name (fst (previews_from re db cfg i files) ! k) (files ! k))"
  using assms
proof (induction files arbitrary: i)
  case Nil
  then show ?case by simp
next
  case (Cons item rest)
  from Cons.prems have "\<exists>n. process re db (original_name ((item # rest) ! 0)) cfg (int (i + 0) + 1) = Inr n"
    by blast
  then obtain n where n: "process re db (original_name item) cfg (int i + 1) = Inr n"
    by auto
  have "\<forall>k<length rest. \<exists>m. process re db (original_name (rest ! k)) cfg (int (Suc i + k) + 1) = Inr m"
  proof (intro allI impI)
    fix k assume "k < length rest"
    then have "Suc k < length (item # rest)" by simp
    with Cons.prems have "\<exists>m. process re db (original_name ((item # rest) ! Suc k)) cfg (int (i + Suc k) + 1) = Inr m"
      by blast
    then show "\<exists>m. process re db (original_name (rest ! k)) cfg (int (Suc i + k) + 1) = Inr m"
      by simp
  qed
  note ih = Cons.IH [OF this]
  define rest' where "rest' = fst (previews_from re db cfg (Suc i) rest)"
  have eq: "previews_from re db cfg i (item # rest) =
              (item\<lparr>new_name := n\<rparr> # rest', snd (previews_from re db cfg (Suc i) rest))"
    unfolding rest'_def using n by (rule previews_from_Cons_ok)
  have r: "snd (previews_from re db cfg (Suc i) rest) = None"
    using ih by (rule conjunct1)
  have len: "length rest' = length rest"
    unfolding rest'_def using ih by blast
  have pt: "\<And>k. k < length rest \<Longrightarrow>
            process re db (original_name (rest ! k)) cfg (int (Suc i + k) + 1) = Inr (new_name (rest' ! k)) \<and>
            same_but_new_name (rest' ! k) (rest ! k)"
    unfolding rest'_def using ih by blast
  show ?case
    unfolding eq
  proof (intro conjI allI impI)
    show "snd (item\<lparr>new_name := n\<rparr> # rest', snd (previews_from re db cfg (Suc i) rest)) = None"
      using r by simp
    show "length (fst (item\<lparr>new_name := n\<rparr> # rest', snd (previews_from re db cfg (Suc i) rest))) =
            length (item # rest)"
      using len by simp
  next
    fix k assume k: "k < length (item # rest)"
    show "process re db (original_name ((item # rest) ! k)) cfg (int (i + k) + 1) =
            Inr (new_name (fst (item\<lparr>new_name := n\<rparr> # rest', snd (previews_from re db cfg (Suc i) rest)) ! k))"
    proof (cases k)
      case 0
      then show ?thesis using n by simp
    next
      case (Suc j)
      then have "j < length rest" using k by simp
      from pt [OF this] Suc show ?thesis by simp
    qed
    show "same_but_new_name
            (fst (item\<lparr>new_name := n\<rparr> # rest', snd (previews_from re db cfg (Suc i) rest)) ! k)
            ((item # rest) ! k)"
    proof (cases k)
      case 0
      then show ?thesis by (simp add: same_but_new_name_def)
    next
      case (Suc j)
      then have "j < length rest" using k by simp
      from pt [OF this] Suc show ?thesis by simp
    qed
  qed
qed

lemma foreground_none_iff:
  "k < length fs \<Longrightarrow>
     (data_foreground fs k = None) = (new_name (fs ! k) = original_name (fs ! k))"
  by (simp add: data_foreground_def Let_def)

text \<open>
  C3, amended. If every call of \<^verbatim>\<open>process\<close> in the pass returns, \<^verbatim>\<open>update_previews\<close> returns
  as well and keeps the length of the list; the item at position \<open>k\<close> (counted from 0) gets
  as \<^verbatim>\<open>new_name\<close> the result of \<^verbatim>\<open>process\<close> on its \<^verbatim>\<open>original_name\<close> with index \<open>k + 1\<close>, so
  the first item is processed with index 1. Every other field of the item, \<^verbatim>\<open>status\<close>
  among them, is what it was before the pass: no status is assigned. What tells an
  unchanged item from a changed one is the foreground of the new-name column, which is
  absent exactly when \<^verbatim>\<open>new_name\<close> equals \<^verbatim>\<open>original_name\<close>.
\<close>

theorem planning_pass:
  assumes "\<forall>k<length files. \<exists>n. process re db (original_name (files ! k)) cfg (int k + 1) = Inr n"
  shows "snd (update_previews re db cfg files) = None \<and>
         length (fst (update_previews re db cfg files)) = length files \<and>
         (\<forall>k<length files.
            process re db (original_name (files ! k)) cfg (int k + 1) =
              Inr (new_name (fst (update_previews re db cfg files) ! k)) \<and>
            same_but_new_name (fst (update_previews re db cfg files) ! k) (files ! k) \<and>
            (data_foreground (fst (update_previews re db cfg files)) k = None) =
              (new_name (fst (update_previews re db cfg files) ! k) = original_name (files ! k)))"
proof -
  define fs where "fs = fst (previews_from re db cfg 0 files)"
  have "\<forall>k<length files. \<exists>n. process re db (original_name (files ! k)) cfg (int (0 + k) + 1) = Inr n"
    using assms by simp
  note r = previews_from_ok [OF this]
  have r1: "snd (previews_from re db cfg 0 files) = None"
    using r by (rule conjunct1)
  have r2: "length fs = length files"
    unfolding fs_def using r by blast
  have r3: "\<And>k. k < length files \<Longrightarrow>
              process re db (original_name (files ! k)) cfg (int k + 1) = Inr (new_name (fs ! k))"
  proof -
    fix k assume "k < length files"
    with r have "process re db (original_name (files ! k)) cfg (int (0 + k) + 1) = Inr (new_name (fs ! k))"
      unfolding fs_def by blast
    then show "process re db (original_name (files ! k)) cfg (int k + 1) = Inr (new_name (fs ! k))"
      by simp
  qed
  have r4: "\<And>k. k < length files \<Longrightarrow> same_but_new_name (fs ! k) (files ! k)"
    unfolding fs_def using r by blast
  have r5: "\<And>k. k < length files \<Longrightarrow>
              (data_foreground fs k = None) = (new_name (fs ! k) = original_name (files ! k))"
  proof -
    fix k assume k: "k < length files"
    then have "k < length fs" using r2 by simp
    then have "(data_foreground fs k = None) = (new_name (fs ! k) = original_name (fs ! k))"
      by (rule foreground_none_iff)
    moreover have "original_name (fs ! k) = original_name (files ! k)"
      using r4 [OF k] by (simp add: same_but_new_name_def)
    ultimately show "(data_foreground fs k = None) = (new_name (fs ! k) = original_name (files ! k))"
      by simp
  qed
  show ?thesis
    unfolding update_previews_def fs_def [symmetric]
    using r1 r2 r3 r4 r5 by blast
qed

theorem planning_pass_witness:
  "process no_re ascii_tables (original_name (ab_files ! 0)) suffix_config 1 = Inr ''a_02.txt'' \<and>
   process no_re ascii_tables (original_name (ab_files ! 1)) suffix_config 2 = Inr ''b_03.txt'' \<and>
   length ab_files = 2 \<and>
   snd (update_previews no_re ascii_tables suffix_config ab_files) = None \<and>
   new_name (fst (update_previews no_re ascii_tables suffix_config ab_files) ! 1) = ''b_03.txt'' \<and>
   same_but_new_name (fst (update_previews no_re ascii_tables suffix_config ab_files) ! 1) (ab_files ! 1)"
proof -
  have l: "length ab_files = 2"
    by (simp add: ab_files_def)
  have p0: "process no_re ascii_tables (original_name (ab_files ! 0)) suffix_config 1 = Inr ''a_02.txt''"
    by code_simp
  have p1: "process no_re ascii_tables (original_name (ab_files ! 1)) suffix_config 2 = Inr ''b_03.txt''"
    by code_simp
  have h: "\<forall>k<length ab_files.
             \<exists>n. process no_re ascii_tables (original_name (ab_files ! k)) suffix_config (int k + 1) = Inr n"
  proof (intro allI impI)
    fix k assume "k < length ab_files"
    then have "k = 0 \<or> k = 1" using l by auto
    then show "\<exists>n. process no_re ascii_tables (original_name (ab_files ! k)) suffix_config (int k + 1) = Inr n"
      using p0 p1 by auto
  qed
  note r = planning_pass [OF h]
  have a: "snd (update_previews no_re ascii_tables suffix_config ab_files) = None"
    using r by (rule conjunct1)
  have "1 < length ab_files" using l by simp
  with r have b: "process no_re ascii_tables (original_name (ab_files ! 1)) suffix_config (int 1 + 1) =
                    Inr (new_name (fst (update_previews no_re ascii_tables suffix_config ab_files) ! 1))"
    and c: "same_but_new_name (fst (update_previews no_re ascii_tables suffix_config ab_files) ! 1) (ab_files ! 1)"
    by blast+
  from b p1 have d: "new_name (fst (update_previews no_re ascii_tables suffix_config ab_files) ! 1) = ''b_03.txt''"
    by simp
  from p0 p1 l a d c show ?thesis by blast
qed

text \<open>
  C3 as stated fails in its second half: after the pass on the files \<^verbatim>\<open>a.txt\<close> and \<^verbatim>\<open>b.txt\<close>
  with a numbering suffix both names have changed, and the status of both items is still
  the default \<^verbatim>\<open>OK\<close> of the data class, which is also what the status column shows; the
  status is neither \<^verbatim>\<open>Pending\<close> nor \<^verbatim>\<open>Unchanged\<close>.
\<close>

theorem planning_status_counterexample:
  "map new_name (fst (update_previews no_re ascii_tables suffix_config ab_files)) = [''a_02.txt'', ''b_03.txt''] \<and>
   map original_name (fst (update_previews no_re ascii_tables suffix_config ab_files)) = [''a.txt'', ''b.txt''] \<and>
   map status (fst (update_previews no_re ascii_tables suffix_config ab_files)) = [''OK'', ''OK''] \<and>
   map (data_status (fst (update_previews no_re ascii_tables suffix_config ab_files))) [0, 1] =
     [Some ''OK'', Some ''OK'']"
  by code_simp

subsection \<open>Duplicate new names (C4)\<close>

lemma length_previews_from:
  "length (fst (previews_from re db cfg i files)) = length files"
  by (induction files arbitrary: i) (simp_all add: split_beta split: sum.splits)

lemma previews_from_same:
  "k < length files \<Longrightarrow> same_but_new_name (fst (previews_from re db cfg i files) ! k) (files ! k)"
proof (induction files arbitrary: i k)
  case Nil
  then show ?case by simp
next
  case (Cons item rest)
  show ?case
  proof (cases "process re db (original_name item) cfg (int i + 1)")
    case (Inl e)
    then show ?thesis by (simp add: same_but_new_name_def)
  next
    case (Inr n)
    show ?thesis
    proof (cases k)
      case 0
      then show ?thesis using Inr by (simp add: same_but_new_name_def split_beta)
    next
      case (Suc m)
      then have "m < length rest" using Cons.prems by simp
      then have "same_but_new_name (fst (previews_from re db cfg (Suc i) rest) ! m) (rest ! m)"
        by (rule Cons.IH)
      then show ?thesis using Inr Suc by (simp add: split_beta)
    qed
  qed
qed

lemma count_list_two:
  assumes "i < j" and "j < length xs" and "xs ! i = x" and "xs ! j = x"
  shows "1 < count_list xs x"
proof -
  have i: "i < length xs" using assms by simp
  have split: "xs = take i xs @ xs ! i # drop (Suc i) xs"
    using i by (rule id_take_nth_drop)
  have "drop (Suc i) xs ! (j - Suc i) = xs ! j"
    using assms by simp
  moreover have "j - Suc i < length (drop (Suc i) xs)"
    using assms by simp
  ultimately have "xs ! j \<in> set (drop (Suc i) xs)"
    using nth_mem [of "j - Suc i" "drop (Suc i) xs"] by simp
  then have "x \<in> set (drop (Suc i) xs)"
    using assms(4) by simp
  then have "count_list (drop (Suc i) xs) x \<noteq> 0"
    by (simp only: count_list_0_iff not_not)
  then have "0 < count_list (drop (Suc i) xs) x"
    by simp
  moreover have "count_list xs x = count_list (take i xs) x + count_list (xs ! i # drop (Suc i) xs) x"
    by (subst split) (simp only: count_list_append)
  ultimately show ?thesis using assms(3) by simp
qed

lemma count_list_duplicate:
  assumes "i \<noteq> j" and "i < length xs" and "j < length xs" and "xs ! i = xs ! j"
  shows "1 < count_list xs (xs ! i)"
proof (cases "i < j")
  case True
  then show ?thesis
    using assms(3) refl assms(4) [symmetric] by (rule count_list_two)
next
  case False
  then have "j < i" using assms(1) by simp
  then show ?thesis
    using assms(2) assms(4) [symmetric] refl by (rule count_list_two)
qed

lemma foreground_duplicate:
  assumes "i < length fs" and "j < length fs" and "i \<noteq> j"
    and "new_name (fs ! i) = new_name (fs ! j)"
  shows "data_foreground fs i =
           (if new_name (fs ! i) = original_name (fs ! i) then None else Some Red)"
proof -
  have "map new_name fs ! i = map new_name fs ! j"
    using assms(1,2,4) by (simp only: nth_map)
  moreover have "i < length (map new_name fs)" and "j < length (map new_name fs)"
    using assms(1,2) by simp_all
  ultimately have "1 < count_list (map new_name fs) (map new_name fs ! i)"
    using assms(3) by (intro count_list_duplicate [of i j])
  then have "1 < count_list (map new_name fs) (new_name (fs ! i))"
    using assms(1) by (simp only: nth_map)
  then show ?thesis
    using assms(1) by (simp add: data_foreground_def Let_def)
qed

text \<open>
  C4, amended. After \<^verbatim>\<open>update_previews\<close>, whenever two distinct items of the list have
  the same \<^verbatim>\<open>new_name\<close>, each of them (the statement holds for either member \<open>i\<close> of a
  pair, hence for every member of the group) is shown with a red foreground in the
  new-name column, unless its \<^verbatim>\<open>new_name\<close> equals its \<^verbatim>\<open>original_name\<close>, in which case it has
  no foreground. The mark is this colour only: the \<^verbatim>\<open>status\<close> of the item is what it was
  before the pass.
\<close>

theorem duplicate_names_red:
  assumes "i < length files" and "j < length files" and "i \<noteq> j"
    and "new_name (fst (update_previews re db cfg files) ! i) =
         new_name (fst (update_previews re db cfg files) ! j)"
  shows "data_foreground (fst (update_previews re db cfg files)) i =
           (if new_name (fst (update_previews re db cfg files) ! i) = original_name (files ! i)
            then None else Some Red) \<and>
         status (fst (update_previews re db cfg files) ! i) = status (files ! i)"
proof -
  define fs where "fs = fst (update_previews re db cfg files)"
  have len: "length fs = length files"
    unfolding fs_def update_previews_def by (rule length_previews_from)
  have same: "same_but_new_name (fs ! i) (files ! i)"
    unfolding fs_def update_previews_def using assms(1) by (rule previews_from_same)
  then have o: "original_name (fs ! i) = original_name (files ! i)"
    and s: "status (fs ! i) = status (files ! i)"
    by (simp_all add: same_but_new_name_def)
  have "data_foreground fs i = (if new_name (fs ! i) = original_name (fs ! i) then None else Some Red)"
    using assms unfolding fs_def [symmetric] len [symmetric] by (rule foreground_duplicate)
  then show ?thesis
    unfolding fs_def [symmetric] using o s by simp
qed

theorem duplicate_names_red_witness:
  "length foo_bar_files = 2 \<and>
   new_name (fst (update_previews no_re ascii_tables fixed_name_config foo_bar_files) ! 1) =
     new_name (fst (update_previews no_re ascii_tables fixed_name_config foo_bar_files) ! 0) \<and>
   original_name (foo_bar_files ! 1) = ''bar.txt'' \<and>
   new_name (fst (update_previews no_re ascii_tables fixed_name_config foo_bar_files) ! 1) = ''x.txt'' \<and>
   data_foreground (fst (update_previews no_re ascii_tables fixed_name_config foo_bar_files)) 1 = Some Red \<and>
   status (fst (update_previews no_re ascii_tables fixed_name_config foo_bar_files) ! 1) = status (foo_bar_files ! 1)"
proof -
  have l: "length foo_bar_files = 2"
    by (simp add: foo_bar_files_def)
  have n: "map new_name (fst (update_previews no_re ascii_tables fixed_name_config foo_bar_files)) = [''x.txt'', ''x.txt'']"
    by code_simp
  have len: "length (fst (update_previews no_re ascii_tables fixed_name_config foo_bar_files)) = 2"
    unfolding update_previews_def using l by (simp only: length_previews_from)
  have n0: "new_name (fst (update_previews no_re ascii_tables fixed_name_config foo_bar_files) ! 0) = ''x.txt''"
  proof -
    have "map new_name (fst (update_previews no_re ascii_tables fixed_name_config foo_bar_files)) ! 0 = ''x.txt''"
      by (simp only: n) simp
    then show ?thesis using len by simp
  qed
  have n1: "new_name (fst (update_previews no_re ascii_tables fixed_name_config foo_bar_files) ! 1) = ''x.txt''"
  proof -
    have "map new_name (fst (update_previews no_re ascii_tables fixed_name_config foo_bar_files)) ! 1 = ''x.txt''"
      by (simp only: n) simp
    then show ?thesis using len by simp
  qed
  have o: "original_name (foo_bar_files ! 1) = ''bar.txt''"
    by code_simp
  have h1: "1 < length foo_bar_files" and h2: "0 < length foo_bar_files" and h3: "(1::nat) \<noteq> 0"
    using l by simp_all
  have h4: "new_name (fst (update_previews no_re ascii_tables fixed_name_config foo_bar_files) ! 1) =
            new_name (fst (update_previews no_re ascii_tables fixed_name_config foo_bar_files) ! 0)"
    using n0 n1 by simp
  note r = duplicate_names_red [OF h1 h2 h3 h4]
  have ne: "new_name (fst (update_previews no_re ascii_tables fixed_name_config foo_bar_files) ! 1) \<noteq>
            original_name (foo_bar_files ! 1)"
    unfolding n1 o by simp
  have a: "data_foreground (fst (update_previews no_re ascii_tables fixed_name_config foo_bar_files)) 1 = Some Red"
    using r ne by simp
  have b: "status (fst (update_previews no_re ascii_tables fixed_name_config foo_bar_files) ! 1) =
           status (foo_bar_files ! 1)"
    using r by (rule conjunct2)
  from l h4 o n1 a b show ?thesis by blast
qed

text \<open>
  C4 as stated fails. With the fixed name \<^verbatim>\<open>x\<close>, the files \<^verbatim>\<open>foo.txt\<close> and \<^verbatim>\<open>bar.txt\<close> both get
  the new name \<^verbatim>\<open>x.txt\<close>, and the status of both is still \<^verbatim>\<open>OK\<close>: no item is marked
  \<^verbatim>\<open>Collision\<close>. The red foreground, the only mark there is, misses a member of the group
  whose name does not change: of the files \<^verbatim>\<open>x.txt\<close> and \<^verbatim>\<open>foo.txt\<close>, both named \<^verbatim>\<open>x.txt\<close>
  by the plan, the first has no foreground at all.
\<close>

theorem collision_counterexample:
  "map new_name (fst (update_previews no_re ascii_tables fixed_name_config foo_bar_files)) = [''x.txt'', ''x.txt''] \<and>
   map status (fst (update_previews no_re ascii_tables fixed_name_config foo_bar_files)) = [''OK'', ''OK''] \<and>
   map new_name (fst (update_previews no_re ascii_tables fixed_name_config x_foo_files)) = [''x.txt'', ''x.txt''] \<and>
   map (data_foreground (fst (update_previews no_re ascii_tables fixed_name_config x_foo_files))) [0, 1] =
     [None, Some Red]"
  by code_simp

subsection \<open>The execution loop (C9)\<close>

lemma rename_loop_outcomes:
  "rename_loop os_rename files (fs, n, errs) =
     (fst (rename_loop os_rename files (fs, n, errs)),
      n + length (filter succeeded (outcomes os_rename fs files)),
      errs @ List.map_filter failure_entry (outcomes os_rename fs files))"
proof (induction files arbitrary: fs n errs)
  case Nil
  then show ?case by (simp add: List.map_filter_simps)
next
  case (Cons item rest)
  show ?case
  proof (cases "changed item")
    case False
    then have "original_name item = new_name item" by (simp add: changed_def)
    then show ?thesis using False Cons.IH [of fs n errs] by simp
  next
    case True
    then have ne: "original_name item \<noteq> new_name item" by (simp add: changed_def)
    obtain fs' r where call: "os_rename fs (path item) (rename_target item) = (fs', r)"
      by (cases "os_rename fs (path item) (rename_target item)")
    show ?thesis
    proof (cases r)
      case None
      have "rename_loop os_rename (item # rest) (fs, n, errs) = rename_loop os_rename rest (fs', n + 1, errs)"
        using ne call None by (simp add: rename_target_def Let_def)
      moreover have "outcomes os_rename fs (item # rest) = (item, None) # outcomes os_rename fs' rest"
        using True call None by simp
      ultimately show ?thesis
        using Cons.IH [of fs' "n + 1" errs]
        by (simp add: succeeded_def failure_entry_def List.map_filter_simps)
    next
      case (Some msg)
      have "rename_loop os_rename (item # rest) (fs, n, errs) =
              rename_loop os_rename rest (fs', n, errs @ [original_name item @ '': '' @ msg])"
        using ne call Some by (simp add: rename_target_def Let_def)
      moreover have "outcomes os_rename fs (item # rest) = (item, Some msg) # outcomes os_rename fs' rest"
        using True call Some by simp
      ultimately show ?thesis
        using Cons.IH [of fs' n "errs @ [original_name item @ '': '' @ msg]"]
        by (simp add: succeeded_def failure_entry_def List.map_filter_simps)
    qed
  qed
qed

lemma outcomes_items:
  "map fst (outcomes os_rename fs files) = filter changed files"
proof (induction files arbitrary: fs)
  case Nil
  then show ?case by simp
next
  case (Cons item rest)
  then show ?case by (simp add: split_beta)
qed

lemma traced_log:
  "snd (fst (rename_loop (traced os_rename) files ((fs, calls), n, errs))) = calls @ rename_calls files"
proof (induction files arbitrary: fs calls n errs)
  case Nil
  then show ?case by (simp add: rename_calls_def)
next
  case (Cons item rest)
  show ?case
  proof (cases "changed item")
    case False
    then have "original_name item = new_name item" by (simp add: changed_def)
    then show ?thesis using False Cons.IH [of fs calls n errs] by (simp add: rename_calls_def)
  next
    case True
    then have ne: "original_name item \<noteq> new_name item" by (simp add: changed_def)
    obtain fs' r where call: "os_rename fs (path item) (rename_target item) = (fs', r)"
      by (cases "os_rename fs (path item) (rename_target item)")
    have t: "traced os_rename (fs, calls) (path item) (rename_target item) =
               ((fs', calls @ [(path item, rename_target item)]), r)"
      using call by (simp add: traced_def)
    have c: "rename_calls (item # rest) = (path item, rename_target item) # rename_calls rest"
      using True by (simp add: rename_calls_def)
    show ?thesis
    proof (cases r)
      case None
      have "rename_loop (traced os_rename) (item # rest) ((fs, calls), n, errs) =
              rename_loop (traced os_rename) rest ((fs', calls @ [(path item, rename_target item)]), n + 1, errs)"
        using ne t None by (simp add: rename_target_def Let_def)
      then show ?thesis
        using Cons.IH [of fs' "calls @ [(path item, rename_target item)]" "n + 1" errs] c by simp
    next
      case (Some msg)
      have "rename_loop (traced os_rename) (item # rest) ((fs, calls), n, errs) =
              rename_loop (traced os_rename) rest
                ((fs', calls @ [(path item, rename_target item)]), n, errs @ [original_name item @ '': '' @ msg])"
        using ne t Some by (simp add: rename_target_def Let_def)
      then show ?thesis
        using Cons.IH [of fs' "calls @ [(path item, rename_target item)]" n
                          "errs @ [original_name item @ '': '' @ msg]"] c
        by simp
    qed
  qed
qed

lemma parse_path_plain:
  assumes "plain_name n"
  shows "parse_path n = \<lparr> anchor = [], tail = [n] \<rparr>"
proof -
  have "CHR ''/'' \<notin> set n" and "n \<noteq> []" and "n \<noteq> ''.''"
    using assms by (simp_all add: plain_name_def)
  then show ?thesis
    by (simp add: parse_path_component)
qed

lemma target_in_parent:
  assumes "plain_name (new_name item)"
  shows "path_parent (rename_target item) = path_parent (path item) \<and>
         path_name (rename_target item) = new_name item"
  using assms
  by (simp add: rename_target_def joinpath_def parse_path_plain Let_def path_parent_def path_name_def)

lemma outcomes_count:
  "length (filter succeeded xs) + length (List.map_filter failure_entry xs) = length xs"
proof (induction xs)
  case Nil
  then show ?case by (simp add: List.map_filter_simps)
next
  case (Cons x xs)
  then show ?case
    by (cases "snd x") (simp_all add: List.map_filter_simps succeeded_def failure_entry_def)
qed

text \<open>
  What the loop of \<^verbatim>\<open>execute_rename\<close> does for every plan. It calls \<^verbatim>\<open>os.rename\<close> once for
  every item whose \<^verbatim>\<open>new_name\<close> differs from its \<^verbatim>\<open>original_name\<close>, in plan order and for no
  other item, from the path of the item to \<^verbatim>\<open>path.parent / new_name\<close>, whether or not earlier
  calls failed. The count of successes is the number of attempts that raised nothing, the
  error list holds, in plan order, the text \<^verbatim>\<open>original_name: message\<close> for every attempt that
  raised, and the two together account for every changed item once. When the new name is
  a single path component other than \<^verbatim>\<open>.\<close>, the target lies in the parent directory of the
  item, under the new name. On a table that is not empty and after the answer Yes,
  \<^verbatim>\<open>execute_rename\<close> ends with the file system the loop left and the message of the result
  dialog.
\<close>

theorem execution_loop:
  "snd (fst (rename_loop (traced os_rename) files ((fs, []), 0, []))) = rename_calls files \<and>
   map fst (outcomes os_rename fs files) = filter changed files \<and>
   fst (snd (rename_loop os_rename files (fs, 0, []))) =
     length (filter succeeded (outcomes os_rename fs files)) \<and>
   snd (snd (rename_loop os_rename files (fs, 0, []))) =
     List.map_filter failure_entry (outcomes os_rename fs files) \<and>
   fst (snd (rename_loop os_rename files (fs, 0, []))) +
     length (snd (snd (rename_loop os_rename files (fs, 0, [])))) = length (filter changed files) \<and>
   (\<forall>item \<in> set files. plain_name (new_name item) \<longrightarrow>
      path_parent (rename_target item) = path_parent (path item) \<and>
      path_name (rename_target item) = new_name item) \<and>
   (files \<noteq> [] \<longrightarrow>
      execute_rename os_rename True files fs =
        Some (fst (rename_loop os_rename files (fs, 0, [])),
              result_message (fst (snd (rename_loop os_rename files (fs, 0, []))))
                             (snd (snd (rename_loop os_rename files (fs, 0, []))))))"
proof -
  define R where "R = rename_loop os_rename files (fs, 0, [])"
  define os where "os = outcomes os_rename fs files"
  have a: "snd (fst (rename_loop (traced os_rename) files ((fs, []), 0, []))) = rename_calls files"
    using traced_log [of os_rename files fs "[]" 0 "[]"] by simp
  have b: "map fst os = filter changed files"
    unfolding os_def by (rule outcomes_items)
  have "R = (fst R, 0 + length (filter succeeded os), [] @ List.map_filter failure_entry os)"
    unfolding R_def os_def by (rule rename_loop_outcomes)
  then have "snd R = (length (filter succeeded os), List.map_filter failure_entry os)"
    by (metis add_0 append_Nil snd_conv)
  then have c: "fst (snd R) = length (filter succeeded os)"
    and d: "snd (snd R) = List.map_filter failure_entry os"
    by simp_all
  have "length (filter succeeded os) + length (List.map_filter failure_entry os) = length os"
    by (rule outcomes_count)
  also have "length os = length (map fst os)"
    by simp
  also have "\<dots> = length (filter changed files)"
    by (simp only: b)
  finally have e: "fst (snd R) + length (snd (snd R)) = length (filter changed files)"
    by (simp only: c d)
  have f: "\<forall>item \<in> set files. plain_name (new_name item) \<longrightarrow>
             path_parent (rename_target item) = path_parent (path item) \<and>
             path_name (rename_target item) = new_name item"
    using target_in_parent by blast
  have g: "files \<noteq> [] \<longrightarrow>
             execute_rename os_rename True files fs =
               Some (fst R, result_message (fst (snd R)) (snd (snd R)))"
    unfolding R_def by (simp add: execute_rename_def split_beta)
  from a b c d e f g show ?thesis
    unfolding R_def os_def by blast
qed

theorem execution_loop_witness:
  "list_all plain_name (map new_name mixed_plan) \<and>
   length mixed_plan = 3 \<and>
   snd (fst (rename_loop (traced refuse_b) mixed_plan (((), []), 0, []))) =
     [(parse_path ''/d/b.txt'', parse_path ''/d/y.txt''),
      (parse_path ''/d/a.txt'', parse_path ''/d/z.txt'')] \<and>
   fst (snd (rename_loop refuse_b mixed_plan ((), 0, []))) = 1 \<and>
   snd (snd (rename_loop refuse_b mixed_plan ((), 0, []))) = [''b.txt: denied''] \<and>
   path_parent (rename_target (mixed_plan ! 0)) = parse_path ''/d'' \<and>
   execute_rename refuse_b True mixed_plan () =
     Some ((), ''Renamed 1 files.'' @ [CHR 0x0A, CHR 0x0A] @ ''Errors (1):'' @ [CHR 0x0A] @ ''b.txt: denied'')"
proof -
  note r = execution_loop [of refuse_b mixed_plan "()"]
  have h1: "list_all plain_name (map new_name mixed_plan)"
    by code_simp
  have h2: "length mixed_plan = 3"
    by (simp add: mixed_plan_def)
  have calls: "rename_calls mixed_plan =
                 [(parse_path ''/d/b.txt'', parse_path ''/d/y.txt''),
                  (parse_path ''/d/a.txt'', parse_path ''/d/z.txt'')]"
    by code_simp
  have os: "map snd (outcomes refuse_b () mixed_plan) = [Some ''denied'', None]"
    by code_simp
  have fe: "List.map_filter failure_entry (outcomes refuse_b () mixed_plan) = [''b.txt: denied'']"
    by code_simp
  have su: "length (filter succeeded (outcomes refuse_b () mixed_plan)) = 1"
    by code_simp
  have a: "snd (fst (rename_loop (traced refuse_b) mixed_plan (((), []), 0, []))) =
             [(parse_path ''/d/b.txt'', parse_path ''/d/y.txt''),
              (parse_path ''/d/a.txt'', parse_path ''/d/z.txt'')]"
    using r calls by simp
  have b: "fst (snd (rename_loop refuse_b mixed_plan ((), 0, []))) = 1"
    using r su by simp
  have c: "snd (snd (rename_loop refuse_b mixed_plan ((), 0, []))) = [''b.txt: denied'']"
    using r fe by simp
  have "mixed_plan ! 0 \<in> set mixed_plan"
    using h2 by simp
  moreover have "plain_name (new_name (mixed_plan ! 0))"
    by code_simp
  ultimately have "path_parent (rename_target (mixed_plan ! 0)) = path_parent (path (mixed_plan ! 0))"
    using r by blast
  moreover have "path_parent (path (mixed_plan ! 0)) = parse_path ''/d''"
    by code_simp
  ultimately have d: "path_parent (rename_target (mixed_plan ! 0)) = parse_path ''/d''"
    by simp
  have "mixed_plan \<noteq> []"
    using h2 by auto
  with r have "execute_rename refuse_b True mixed_plan () =
        Some (fst (rename_loop refuse_b mixed_plan ((), 0, [])),
              result_message (fst (snd (rename_loop refuse_b mixed_plan ((), 0, []))))
                             (snd (snd (rename_loop refuse_b mixed_plan ((), 0, [])))))"
    by blast
  moreover have "result_message 1 [''b.txt: denied''] =
      ''Renamed 1 files.'' @ [CHR 0x0A, CHR 0x0A] @ ''Errors (1):'' @ [CHR 0x0A] @ ''b.txt: denied''"
    by code_simp
  ultimately have e: "execute_rename refuse_b True mixed_plan () =
     Some ((), ''Renamed 1 files.'' @ [CHR 0x0A, CHR 0x0A] @ ''Errors (1):'' @ [CHR 0x0A] @ ''b.txt: denied'')"
    unfolding b c by simp
  from h1 h2 a b c d e show ?thesis by blast
qed

text \<open>
  C9. The rename is not always attempted in the parent directory of the item. The target
  is \<^verbatim>\<open>old_path.parent / item.new_name\<close>, and nothing keeps a \<^verbatim>\<open>/\<close> out of the new name, which
  is built from the text of the configuration. With the prefix \<^verbatim>\<open>s/\<close> the preview pass gives
  \<^verbatim>\<open>/d/a.txt\<close> and \<^verbatim>\<open>/d/b.txt\<close> the new names \<^verbatim>\<open>s/a.txt\<close> and \<^verbatim>\<open>s/b.txt\<close>, and the loop, whatever the
  file system answers, asks for the renames to \<^verbatim>\<open>/d/s/a.txt\<close> and \<^verbatim>\<open>/d/s/b.txt\<close>: the parent
  of the targets is \<^verbatim>\<open>/d/s\<close>, that of the items is \<^verbatim>\<open>/d\<close>.
\<close>

theorem rename_target_outside_parent:
  "map new_name (fst (update_previews no_re ascii_tables subdir_config ab_files)) =
     [''s/a.txt'', ''s/b.txt''] \<and>
   snd (fst (rename_loop (traced refuse_b)
               (fst (update_previews no_re ascii_tables subdir_config ab_files)) (((), []), 0, []))) =
     [(\<lparr>anchor = ''/'', tail = [''d'', ''a.txt'']\<rparr>, \<lparr>anchor = ''/'', tail = [''d'', ''s'', ''a.txt'']\<rparr>),
      (\<lparr>anchor = ''/'', tail = [''d'', ''b.txt'']\<rparr>, \<lparr>anchor = ''/'', tail = [''d'', ''s'', ''b.txt'']\<rparr>)] \<and>
   map path_parent (map path (fst (update_previews no_re ascii_tables subdir_config ab_files))) =
     [\<lparr>anchor = ''/'', tail = [''d'']\<rparr>, \<lparr>anchor = ''/'', tail = [''d'']\<rparr>] \<and>
   map path_parent
     (map snd (snd (fst (rename_loop (traced refuse_b)
                           (fst (update_previews no_re ascii_tables subdir_config ab_files))
                           (((), []), 0, []))))) =
     [\<lparr>anchor = ''/'', tail = [''d'', ''s'']\<rparr>, \<lparr>anchor = ''/'', tail = [''d'', ''s'']\<rparr>]"
  by code_simp

end
